theory Spec2Isabelle
  imports Main
begin

section \<open>The fallback storage aggregator\<close>

text \<open>
  A shallow embedding of \<^verbatim>\<open>FallbackStorageAdapter\<close> and \<^verbatim>\<open>buildStorage\<close>.
  The storage backends are external: a backend is a record of operations, each an
  arbitrary function that reads and updates a backend world \<open>'w\<close> and either returns
  or throws. An asynchronous method that is awaited in sequence becomes a function
  from the state before the call to the outcome and the state after it.
  The tracing context \<^verbatim>\<open>ctx\<close> is handed unchanged to every backend call and is left
  out, except for \<^verbatim>\<open>ctx.error\<close>, which is a field of the state.
\<close>

subsection \<open>Data\<close>

record WorkspaceId =
  ws_name :: string

text \<open>The stat record of a blob; \<open>blob_id\<close> is the field \<^verbatim>\<open>_id\<close>.\<close>

record Blob =
  blob_id :: string
  blob_provider :: string
  blob_etag :: string
  blob_size :: int
  blob_contentType :: string

text \<open>
  A listing entry; \<open>lbr_id\<close> is the field \<^verbatim>\<open>_id\<close>. The field \<^verbatim>\<open>provider\<close> is optional here
  because the iterator assigns \<^verbatim>\<open>provider?.[0]\<close>, which is \<^verbatim>\<open>undefined\<close> when no provider
  is selected.
\<close>

record ListBlobResult =
  lbr_id :: string
  lbr_etag :: string
  lbr_size :: int
  lbr_provider :: "string option"

record UploadedObjectInfo =
  uoi_etag :: string
  uoi_versionId :: "string option"

record StorageConfig =
  sc_name :: string
  sc_kind :: string

type_synonym Readable = string

text \<open>
  Thrown values. \<open>NoSuchKeyError msg\<close> is the class of the source, \<open>TypeError\<close> is what
  the runtime throws on reading a property of \<^verbatim>\<open>undefined\<close>, and \<open>BackendError\<close> stands
  for any other value a backend throws.
\<close>

datatype error =
    NoSuchKeyError string
  | TypeError
  | BackendError string

fun code :: "error \<Rightarrow> string option" where
  "code (NoSuchKeyError msg) = Some ''NoSuchKey''"
| "code TypeError = None"
| "code (BackendError msg) = None"

fun message :: "error \<Rightarrow> string" where
  "message (NoSuchKeyError msg) = msg"
| "message TypeError = []"
| "message (BackendError msg) = msg"

type_synonym ('a, 'w) io = "'w \<Rightarrow> (error + 'a) \<times> 'w"

record 'w BlobStorageIterator =
  it_next :: "(ListBlobResult list, 'w) io"
  it_close :: "(unit, 'w) io"

record 'w StorageAdapter =
  a_close :: "(unit, 'w) io"
  a_exists :: "WorkspaceId \<Rightarrow> (bool, 'w) io"
  a_make :: "WorkspaceId \<Rightarrow> (unit, 'w) io"
  a_delete :: "WorkspaceId \<Rightarrow> (unit, 'w) io"
  a_remove :: "WorkspaceId \<Rightarrow> string list \<Rightarrow> (unit, 'w) io"
  a_listStream :: "WorkspaceId \<Rightarrow> ('w BlobStorageIterator, 'w) io"
  a_stat :: "WorkspaceId \<Rightarrow> string \<Rightarrow> (Blob option, 'w) io"
  a_get :: "WorkspaceId \<Rightarrow> string \<Rightarrow> (Readable, 'w) io"
  a_partial :: "WorkspaceId \<Rightarrow> string \<Rightarrow> int \<Rightarrow> int option \<Rightarrow> (Readable, 'w) io"
  a_read :: "WorkspaceId \<Rightarrow> string \<Rightarrow> (string list, 'w) io"
  a_put :: "WorkspaceId \<Rightarrow> string \<Rightarrow> string \<Rightarrow> string \<Rightarrow> int option \<Rightarrow> (UploadedObjectInfo, 'w) io"

text \<open>The field \<^verbatim>\<open>adapters\<close> of the class: index 0 is the target, the rest are fallbacks.\<close>

type_synonym 'w adapters = "(string \<times> 'w StorageAdapter) list"

text \<open>
  A backend cursor as the aggregator holds it: the object \<^verbatim>\<open>listStream\<close> returned, with
  the identity the observer gave it and the name of the backend that made it.
\<close>

record 'w cursor =
  c_id :: nat
  c_owner :: string
  c_it :: "'w BlobStorageIterator"

text \<open>
  The variables the closure of \<^verbatim>\<open>makeStorageIterator\<close> captures: the working copy of the
  registry, reversed, the selected provider and its cursor, and the workspace.
\<close>

record 'w merged =
  mi_workspaceId :: WorkspaceId
  mi_adapters :: "'w adapters"
  mi_provider :: "(string \<times> 'w StorageAdapter) option"
  mi_iterator :: "'w cursor option"

record StorageConfiguration =
  storages :: "StorageConfig list"

text \<open>
  The state of one in-memory backend (used below to run the aggregator): whether the
  storage of the workspace exists, whether the backend is out of order, its blobs, the
  number of entries beyond the first that a page of its listing holds, and the pages its
  open cursor has not served yet.
\<close>

record backend =
  bk_present :: bool
  bk_faulty :: bool
  bk_blobs :: "(string \<times> Blob \<times> Readable) list"
  bk_page :: nat
  bk_pending :: "ListBlobResult list list"

subsection \<open>Observing backend calls\<close>

datatype call =
    Close
  | Exists WorkspaceId
  | Make WorkspaceId
  | Delete WorkspaceId
  | Remove WorkspaceId "string list"
  | ListStream WorkspaceId
  | Stat WorkspaceId string
  | Get WorkspaceId string
  | Partial WorkspaceId string int "int option"
  | Read WorkspaceId string
  | Put WorkspaceId string string string "int option"
  | Instantiate StorageConfig
  | IterNext nat
  | IterClose nat

type_synonym event = "string \<times> call"

text \<open>
  The state the aggregator runs in: the backend world, and beside it what an observer of
  the backends records. \<open>trace\<close> lists every backend call in the order it is made, under
  the name the registry gives the backend. \<open>live\<close> holds the identities of the backend
  cursors that were opened and not yet closed, \<open>peak\<close> the largest number of them open at
  once, \<open>fresh\<close> the identity of the next cursor. \<open>ctx_errors\<close> and \<open>analytics\<close> are what
  \<^verbatim>\<open>ctx.error\<close> and \<^verbatim>\<open>Analytics.handleError\<close> received; both sinks return normally.
\<close>

record 'w sys =
  trace :: "event list"
  live :: "nat list"
  peak :: nat
  fresh :: nat
  ctx_errors :: "(string \<times> string \<times> WorkspaceId \<times> error) list"
  analytics :: "error list"
  world :: 'w

type_synonym ('a, 'w) aio = "'w sys \<Rightarrow> (error + 'a) \<times> 'w sys"

definition invoke :: "string \<Rightarrow> call \<Rightarrow> ('a, 'w) io \<Rightarrow> ('a, 'w) aio" where
  "invoke k c f s =
     (case f (world s) of (r, w') \<Rightarrow> (r, s\<lparr>trace := trace s @ [(k, c)], world := w'\<rparr>))"

subsection \<open>Locating a blob\<close>

record 'w found =
  f_id :: string
  f_provider :: "'w StorageAdapter"
  f_stat :: Blob

fun findProvider :: "'w adapters \<Rightarrow> WorkspaceId \<Rightarrow> string \<Rightarrow> ('w found option, 'w) aio" where
  "findProvider [] workspaceId objectName s = (Inr None, s)"
| "findProvider ((k, provider) # rest) workspaceId objectName s =
     (case invoke k (Stat workspaceId objectName) (a_stat provider workspaceId objectName) s of
        (Inl e, s') \<Rightarrow> (Inl e, s')
      | (Inr (Some st), s') \<Rightarrow> (Inr (Some \<lparr>f_id = k, f_provider = provider, f_stat = st\<rparr>), s')
      | (Inr None, s') \<Rightarrow> findProvider rest workspaceId objectName s')"

definition missing :: "WorkspaceId \<Rightarrow> string \<Rightarrow> error" where
  "missing workspaceId nm = NoSuchKeyError (ws_name workspaceId @ '' missing '' @ nm)"

definition stat :: "'w adapters \<Rightarrow> WorkspaceId \<Rightarrow> string \<Rightarrow> (Blob option, 'w) aio" where
  "stat adapters workspaceId nm s =
     (case findProvider adapters workspaceId nm s of
        (Inl e, s') \<Rightarrow> (Inl e, s')
      | (Inr None, s') \<Rightarrow> (Inr None, s')
      | (Inr (Some result), s') \<Rightarrow>
          (Inr (Some ((f_stat result)\<lparr>blob_provider := f_id result\<rparr>)), s'))"

definition get :: "'w adapters \<Rightarrow> WorkspaceId \<Rightarrow> string \<Rightarrow> (Readable, 'w) aio" where
  "get adapters workspaceId nm s =
     (case findProvider adapters workspaceId nm s of
        (Inl e, s') \<Rightarrow> (Inl e, s')
      | (Inr None, s') \<Rightarrow> (Inl (missing workspaceId nm), s')
      | (Inr (Some result), s') \<Rightarrow>
          invoke (f_id result) (Get workspaceId (blob_id (f_stat result)))
            (a_get (f_provider result) workspaceId (blob_id (f_stat result))) s')"

definition partial ::
  "'w adapters \<Rightarrow> WorkspaceId \<Rightarrow> string \<Rightarrow> int \<Rightarrow> int option \<Rightarrow> (Readable, 'w) aio" where
  "partial adapters workspaceId objectName offset len s =
     (case findProvider adapters workspaceId objectName s of
        (Inl e, s') \<Rightarrow> (Inl e, s')
      | (Inr None, s') \<Rightarrow> (Inl (missing workspaceId objectName), s')
      | (Inr (Some result), s') \<Rightarrow>
          invoke (f_id result) (Partial workspaceId (blob_id (f_stat result)) offset len)
            (a_partial (f_provider result) workspaceId (blob_id (f_stat result)) offset len) s')"

definition read :: "'w adapters \<Rightarrow> WorkspaceId \<Rightarrow> string \<Rightarrow> (string list, 'w) aio" where
  "read adapters workspaceId objectName s =
     (case findProvider adapters workspaceId objectName s of
        (Inl e, s') \<Rightarrow> (Inl e, s')
      | (Inr None, s') \<Rightarrow> (Inl (missing workspaceId objectName), s')
      | (Inr (Some result), s') \<Rightarrow>
          invoke (f_id result) (Read workspaceId (blob_id (f_stat result)))
            (a_read (f_provider result) workspaceId (blob_id (f_stat result))) s')"

subsection \<open>Writing\<close>

text \<open>
  \<^verbatim>\<open>this.adapters[0][1]\<close> on an empty registry reads a property of \<^verbatim>\<open>undefined\<close> and
  throws before any backend is called.
\<close>

definition put ::
  "'w adapters \<Rightarrow> WorkspaceId \<Rightarrow> string \<Rightarrow> string \<Rightarrow> string \<Rightarrow> int option \<Rightarrow>
     (UploadedObjectInfo, 'w) aio" where
  "put adapters workspaceId objectName stream contentType sz s =
     (case adapters of
        [] \<Rightarrow> (Inl TypeError, s)
      | (k, adapter) # _ \<Rightarrow>
          invoke k (Put workspaceId objectName stream contentType sz)
            (a_put adapter workspaceId objectName stream contentType sz) s)"

subsection \<open>Operations over every backend\<close>

fun close :: "'w adapters \<Rightarrow> (unit, 'w) aio" where
  "close [] s = (Inr (), s)"
| "close ((k, a) # rest) s =
     (case invoke k Close (a_close a) s of
        (Inl e, s') \<Rightarrow> (Inl e, s')
      | (Inr _, s') \<Rightarrow> close rest s')"

text \<open>The body of the \<^verbatim>\<open>try\<close> block of \<^verbatim>\<open>make\<close>, and the block with its handler.\<close>

definition make_try :: "string \<times> 'w StorageAdapter \<Rightarrow> WorkspaceId \<Rightarrow> (unit, 'w) aio" where
  "make_try ka workspaceId s =
     (case invoke (fst ka) (Exists workspaceId) (a_exists (snd ka) workspaceId) s of
        (Inl e, s1) \<Rightarrow> (Inl e, s1)
      | (Inr ex, s1) \<Rightarrow>
          if \<not> ex then invoke (fst ka) (Make workspaceId) (a_make (snd ka) workspaceId) s1
          else (Inr (), s1))"

definition make_step :: "string \<times> 'w StorageAdapter \<Rightarrow> WorkspaceId \<Rightarrow> 'w sys \<Rightarrow> 'w sys" where
  "make_step ka workspaceId s =
     (case make_try ka workspaceId s of
        (Inr _, s') \<Rightarrow> s'
      | (Inl err, s') \<Rightarrow>
          s'\<lparr>ctx_errors := ctx_errors s' @ [(''failed to init adapter'', fst ka, workspaceId, err)],
             analytics := analytics s' @ [err]\<rparr>)"

fun make :: "'w adapters \<Rightarrow> WorkspaceId \<Rightarrow> (unit, 'w) aio" where
  "make [] workspaceId s = (Inr (), s)"
| "make (ka # rest) workspaceId s = make rest workspaceId (make_step ka workspaceId s)"

fun delete :: "'w adapters \<Rightarrow> WorkspaceId \<Rightarrow> (unit, 'w) aio" where
  "delete [] workspaceId s = (Inr (), s)"
| "delete ((k, a) # rest) workspaceId s =
     (case invoke k (Exists workspaceId) (a_exists a workspaceId) s of
        (Inl e, s1) \<Rightarrow> (Inl e, s1)
      | (Inr ex, s1) \<Rightarrow>
          if ex then
            (case invoke k (Delete workspaceId) (a_delete a workspaceId) s1 of
               (Inl e, s2) \<Rightarrow> (Inl e, s2)
             | (Inr _, s2) \<Rightarrow> delete rest workspaceId s2)
          else delete rest workspaceId s1)"

fun remove :: "'w adapters \<Rightarrow> WorkspaceId \<Rightarrow> string list \<Rightarrow> (unit, 'w) aio" where
  "remove [] workspaceId objectNames s = (Inr (), s)"
| "remove ((k, adapter) # rest) workspaceId objectNames s =
     (case invoke k (Remove workspaceId objectNames) (a_remove adapter workspaceId objectNames) s of
        (Inl e, s') \<Rightarrow> (Inl e, s')
      | (Inr _, s') \<Rightarrow> remove rest workspaceId objectNames s')"

subsection \<open>The merged listing iterator\<close>

definition open_stream ::
  "string \<times> 'w StorageAdapter \<Rightarrow> WorkspaceId \<Rightarrow> ('w cursor, 'w) aio" where
  "open_stream p workspaceId s =
     (case invoke (fst p) (ListStream workspaceId) (a_listStream (snd p) workspaceId) s of
        (Inl e, s') \<Rightarrow> (Inl e, s')
      | (Inr it, s') \<Rightarrow>
          (Inr \<lparr>c_id = fresh s', c_owner = fst p, c_it = it\<rparr>,
           s'\<lparr>live := live s' @ [fresh s'],
              peak := max (peak s') (Suc (length (live s'))),
              fresh := Suc (fresh s')\<rparr>))"

definition cursor_next :: "'w cursor \<Rightarrow> (ListBlobResult list, 'w) aio" where
  "cursor_next c s = invoke (c_owner c) (IterNext (c_id c)) (it_next (c_it c)) s"

text \<open>A cursor whose \<^verbatim>\<open>close\<close> throws still counts as open.\<close>

definition cursor_close :: "'w cursor \<Rightarrow> (unit, 'w) aio" where
  "cursor_close c s =
     (case invoke (c_owner c) (IterClose (c_id c)) (it_close (c_it c)) s of
        (Inl e, s') \<Rightarrow> (Inl e, s')
      | (Inr u, s') \<Rightarrow> (Inr u, s'\<lparr>live := removeAll (c_id c) (live s')\<rparr>))"

definition makeStorageIterator :: "'w adapters \<Rightarrow> WorkspaceId \<Rightarrow> 'w merged" where
  "makeStorageIterator adapters workspaceId =
     \<lparr>mi_workspaceId = workspaceId, mi_adapters = rev adapters,
      mi_provider = None, mi_iterator = None\<rparr>"

text \<open>
  The \<^verbatim>\<open>while (true)\<close> loop of \<^verbatim>\<open>next\<close>, on the three captured variables. Every exit, also
  a throw, leaves the variables as they were assigned before it.
\<close>

function next_loop ::
  "WorkspaceId \<Rightarrow> 'w adapters \<Rightarrow> (string \<times> 'w StorageAdapter) option \<Rightarrow> 'w cursor option \<Rightarrow>
     'w sys \<Rightarrow> (error + ListBlobResult list) \<times> 'w merged \<times> 'w sys" where
  "next_loop ws [] provider None s =
     (Inr [], \<lparr>mi_workspaceId = ws, mi_adapters = [], mi_provider = provider, mi_iterator = None\<rparr>, s)"
| "next_loop ws (p # adapters) provider None s =
     (case open_stream p ws s of
        (Inl e, s1) \<Rightarrow>
          (Inl e, \<lparr>mi_workspaceId = ws, mi_adapters = adapters, mi_provider = Some p,
                   mi_iterator = None\<rparr>, s1)
      | (Inr it, s1) \<Rightarrow> next_loop ws adapters (Some p) (Some it) s1)"
| "next_loop ws adapters provider (Some it) s =
     (case cursor_next it s of
        (Inl e, s1) \<Rightarrow>
          (Inl e, \<lparr>mi_workspaceId = ws, mi_adapters = adapters, mi_provider = provider,
                   mi_iterator = Some it\<rparr>, s1)
      | (Inr docInfos, s1) \<Rightarrow>
          if length docInfos > 0 then
            (Inr (map (\<lambda>d. d\<lparr>lbr_provider := map_option fst provider\<rparr>) docInfos),
             \<lparr>mi_workspaceId = ws, mi_adapters = adapters, mi_provider = provider,
              mi_iterator = Some it\<rparr>, s1)
          else
            (case cursor_close it s1 of
               (Inl e, s2) \<Rightarrow>
                 (Inl e, \<lparr>mi_workspaceId = ws, mi_adapters = adapters, mi_provider = provider,
                          mi_iterator = Some it\<rparr>, s2)
             | (Inr _, s2) \<Rightarrow> next_loop ws adapters provider None s2))"
  by pat_completeness auto
termination
  by (relation "measure (\<lambda>(ws, adapters, provider, iterator, s).
        2 * length adapters + (case iterator of None \<Rightarrow> 0 | Some _ \<Rightarrow> 1))") auto

definition mi_next :: "'w merged \<Rightarrow> 'w sys \<Rightarrow> (error + ListBlobResult list) \<times> 'w merged \<times> 'w sys" where
  "mi_next m s = next_loop (mi_workspaceId m) (mi_adapters m) (mi_provider m) (mi_iterator m) s"

definition mi_close :: "'w merged \<Rightarrow> 'w sys \<Rightarrow> (error + unit) \<times> 'w merged \<times> 'w sys" where
  "mi_close m s =
     (case mi_iterator m of
        None \<Rightarrow> (Inr (), m, s)
      | Some it \<Rightarrow> (case cursor_close it s of (r, s') \<Rightarrow> (r, m, s')))"

text \<open>
  \<^verbatim>\<open>listStream\<close> returns an object whose \<^verbatim>\<open>next\<close> and \<^verbatim>\<open>close\<close> are those of the merged
  iterator: \<open>mi_next\<close> and \<open>mi_close\<close> on the record returned here.
\<close>

definition listStream :: "'w adapters \<Rightarrow> WorkspaceId \<Rightarrow> ('w merged, 'w) aio" where
  "listStream adapters workspaceId s = (Inr (makeStorageIterator adapters workspaceId), s)"

subsection \<open>Construction\<close>

fun build_loop ::
  "StorageConfig list \<Rightarrow> (StorageConfig \<Rightarrow> ('w StorageAdapter, 'w) io) \<Rightarrow> 'w adapters \<Rightarrow>
     ('w adapters, 'w) aio" where
  "build_loop [] storageFactory adapters s = (Inr adapters, s)"
| "build_loop (c # cs) storageFactory adapters s =
     (case invoke (sc_name c) (Instantiate c) (storageFactory c) s of
        (Inl e, s') \<Rightarrow> (Inl e, s')
      | (Inr a, s') \<Rightarrow> build_loop cs storageFactory (adapters @ [(sc_name c, a)]) s')"

definition buildStorage ::
  "StorageConfiguration \<Rightarrow> (StorageConfig \<Rightarrow> ('w StorageAdapter, 'w) io) \<Rightarrow> ('w adapters, 'w) aio" where
  "buildStorage config storageFactory s =
     (case build_loop (storages config) storageFactory [] s of
        (Inl e, s') \<Rightarrow> (Inl e, s')
      | (Inr adapters, s') \<Rightarrow> (Inr (rev adapters), s'))"

subsection \<open>Callers of the iterator\<close>

text \<open>
  A caller that pulls until the iterator returns the empty page or throws, at most \<open>n\<close>
  times, and collects the entries; and a caller that makes any sequence of \<^verbatim>\<open>next\<close> and
  \<^verbatim>\<open>close\<close> calls, going on after a throw.
\<close>

fun drain :: "nat \<Rightarrow> 'w merged \<Rightarrow> 'w sys \<Rightarrow> ListBlobResult list \<times> 'w merged \<times> 'w sys" where
  "drain 0 m s = ([], m, s)"
| "drain (Suc n) m s =
     (case mi_next m s of
        (Inl e, m', s') \<Rightarrow> ([], m', s')
      | (Inr docInfos, m', s') \<Rightarrow>
          if docInfos = [] then ([], m', s')
          else (case drain n m' s' of (later, m'', s'') \<Rightarrow> (docInfos @ later, m'', s'')))"

datatype pull = Next | CloseIterator

fun run :: "pull list \<Rightarrow> 'w merged \<Rightarrow> 'w sys \<Rightarrow> 'w merged \<times> 'w sys" where
  "run [] m s = (m, s)"
| "run (Next # ps) m s = (case mi_next m s of (r, m', s') \<Rightarrow> run ps m' s')"
| "run (CloseIterator # ps) m s = (case mi_close m s of (r, m', s') \<Rightarrow> run ps m' s')"

definition init_sys :: "'w \<Rightarrow> 'w sys" where
  "init_sys w =
     \<lparr>trace = [], live = [], peak = 0, fresh = 0, ctx_errors = [], analytics = [], world = w\<rparr>"

subsection \<open>What holds of the iterator between calls\<close>

text \<open>
  The calls in a trace that open a backend cursor; the condition that at most one backend
  cursor was ever open and that an open one is the one the iterator holds; and the
  condition that the backends opened since the trace \<open>tr0\<close> are, in order, the entries of
  the working list \<open>R\<close> that are no longer on it, the last of them being the selected
  provider whenever a cursor is held.
\<close>

definition opens :: "event list \<Rightarrow> event list" where
  "opens tr = filter (\<lambda>e. case snd e of ListStream ws \<Rightarrow> True | _ \<Rightarrow> False) tr"

definition one_open :: "'w cursor option \<Rightarrow> 'w sys \<Rightarrow> bool" where
  "one_open it s \<longleftrightarrow>
     peak s \<le> 1 \<and>
     (case it of None \<Rightarrow> live s = [] | Some c \<Rightarrow> live s = [] \<or> live s = [c_id c])"

definition in_order ::
  "'w adapters \<Rightarrow> WorkspaceId \<Rightarrow> event list \<Rightarrow> 'w merged \<Rightarrow> 'w sys \<Rightarrow> bool" where
  "in_order R ws tr0 m s \<longleftrightarrow>
     mi_workspaceId m = ws \<and>
     (\<exists>pre t. R = pre @ mi_adapters m \<and> trace s = tr0 @ t \<and>
        opens t = map (\<lambda>p. (fst p, ListStream ws)) pre \<and>
        (mi_iterator m \<noteq> None \<longrightarrow> pre \<noteq> [] \<and> mi_provider m = Some (last pre)))"

subsection \<open>An in-memory backend\<close>

text \<open>
  A backend to run the aggregator on: backend \<open>i\<close> of a store keeps its blobs under their
  external names, each with its stat record and content, serves its listing in pages of
  \<open>bk_page + 1\<close> entries (the last page may be shorter), and throws on every call while it
  is faulty.
\<close>

type_synonym store = "nat \<Rightarrow> backend"

definition unavailable :: error where
  "unavailable = BackendError ''unavailable''"

definition guarded :: "nat \<Rightarrow> ('a, store) io \<Rightarrow> ('a, store) io" where
  "guarded i f w = (if bk_faulty (w i) then (Inl unavailable, w) else f w)"

definition entry :: "string \<times> Blob \<times> Readable \<Rightarrow> ListBlobResult" where
  "entry x = (case x of (n, b, c) \<Rightarrow>
     \<lparr>lbr_id = blob_id b, lbr_etag = blob_etag b, lbr_size = blob_size b, lbr_provider = None\<rparr>)"

fun chunks :: "nat \<Rightarrow> 'a list \<Rightarrow> 'a list list" where
  "chunks n [] = []"
| "chunks n (x # xs) = (x # take n xs) # chunks n (drop n xs)"

definition content :: "backend \<Rightarrow> string \<Rightarrow> error + Readable" where
  "content bk oid =
     (case filter (\<lambda>(n, b, c). blob_id b = oid) (bk_blobs bk) of
        [] \<Rightarrow> Inl (BackendError ''no such object'')
      | (n, b, c) # _ \<Rightarrow> Inr c)"

definition stub_cursor :: "nat \<Rightarrow> store BlobStorageIterator" where
  "stub_cursor i =
     \<lparr>it_next = guarded i (\<lambda>w. case bk_pending (w i) of
          [] \<Rightarrow> (Inr [], w)
        | page # pages \<Rightarrow> (Inr page, w(i := (w i)\<lparr>bk_pending := pages\<rparr>))),
      it_close = guarded i (\<lambda>w. (Inr (), w))\<rparr>"

definition stub :: "nat \<Rightarrow> store StorageAdapter" where
  "stub i =
     \<lparr>a_close = guarded i (\<lambda>w. (Inr (), w)),
      a_exists = (\<lambda>ws. guarded i (\<lambda>w. (Inr (bk_present (w i)), w))),
      a_make = (\<lambda>ws. guarded i (\<lambda>w. (Inr (), w(i := (w i)\<lparr>bk_present := True\<rparr>)))),
      a_delete = (\<lambda>ws. guarded i (\<lambda>w.
        (Inr (), w(i := (w i)\<lparr>bk_present := False, bk_blobs := []\<rparr>)))),
      a_remove = (\<lambda>ws names. guarded i (\<lambda>w.
        (Inr (), w(i := (w i)\<lparr>bk_blobs := filter (\<lambda>x. fst x \<notin> set names) (bk_blobs (w i))\<rparr>)))),
      a_listStream = (\<lambda>ws. guarded i (\<lambda>w.
        (Inr (stub_cursor i),
         w(i := (w i)\<lparr>bk_pending := chunks (bk_page (w i)) (map entry (bk_blobs (w i)))\<rparr>)))),
      a_stat = (\<lambda>ws n. guarded i (\<lambda>w. (Inr (map_option fst (map_of (bk_blobs (w i)) n)), w))),
      a_get = (\<lambda>ws oid. guarded i (\<lambda>w. (content (w i) oid, w))),
      a_partial = (\<lambda>ws oid offset len. guarded i (\<lambda>w.
        (map_sum id (\<lambda>c. case len of None \<Rightarrow> drop (nat offset) c
                                    | Some l \<Rightarrow> take (nat l) (drop (nat offset) c))
           (content (w i) oid), w))),
      a_read = (\<lambda>ws oid. guarded i (\<lambda>w. (map_sum id (\<lambda>c. [c]) (content (w i) oid), w))),
      a_put = (\<lambda>ws n payload ct sz. guarded i (\<lambda>w.
        (Inr \<lparr>uoi_etag = payload, uoi_versionId = None\<rparr>,
         w(i := (w i)\<lparr>bk_blobs :=
           (n, \<lparr>blob_id = n, blob_provider = [], blob_etag = payload,
                blob_size = int (length payload), blob_contentType = ct\<rparr>, payload)
           # filter (\<lambda>x. fst x \<noteq> n) (bk_blobs (w i))\<rparr>))))\<rparr>"

text \<open>
  A registry of in-memory backends, given by names and backend numbers; the listing of a
  backend as the aggregator hands it on, every entry under the registry name; and the
  condition that no backend of a store is faulty and that the blobs and the page sizes
  are the given ones.
\<close>

definition stubs :: "(string \<times> nat) list \<Rightarrow> store adapters" where
  "stubs kis = map (\<lambda>ki. (fst ki, stub (snd ki))) kis"

definition listing :: "string \<Rightarrow> backend \<Rightarrow> ListBlobResult list" where
  "listing k bk = map (\<lambda>x. (entry x)\<lparr>lbr_provider := Some k\<rparr>) (bk_blobs bk)"

definition ready ::
  "(nat \<Rightarrow> (string \<times> Blob \<times> Readable) list) \<Rightarrow> (nat \<Rightarrow> nat) \<Rightarrow> store \<Rightarrow> bool" where
  "ready B P w \<longleftrightarrow> (\<forall>j. \<not> bk_faulty (w j) \<and> bk_blobs (w j) = B j \<and> bk_page (w j) = P j)"

definition blob :: "string \<Rightarrow> string \<Rightarrow> string \<times> Blob \<times> Readable" where
  "blob n c =
     (n, \<lparr>blob_id = n, blob_provider = [], blob_etag = c, blob_size = int (length c),
          blob_contentType = ''text/plain''\<rparr>, c)"

definition holding :: "(string \<times> Blob \<times> Readable) list \<Rightarrow> backend" where
  "holding bs =
     \<lparr>bk_present = True, bk_faulty = False, bk_blobs = bs, bk_page = 0, bk_pending = []\<rparr>"

definition acme :: WorkspaceId where
  "acme = \<lparr>ws_name = ''acme''\<rparr>"

text \<open>
  Two backends behind the registry \<open>[P2, P1]\<close>: the primary \<open>P2\<close> is backend 0 and holds \<open>b\<close>
  and \<open>c\<close>, the fallback \<open>P1\<close> is backend 1 and holds \<open>a\<close> and an older \<open>b\<close>.
\<close>

definition two_store :: store where
  "two_store i =
     (if i = 0 then holding [blob ''b'' ''new b'', blob ''c'' ''new c'']
      else if i = 1 then holding [blob ''a'' ''old a'', blob ''b'' ''old b'']
      else holding [])"

definition two_registry :: "store adapters" where
  "two_registry = [(''P2'', stub 0), (''P1'', stub 1)]"

text \<open>
  A store whose fallback keeps the object named \<open>doc\<close> under its own identifier \<open>k17\<close>,
  and a store with one backend out of order.
\<close>

definition alias_store :: store where
  "alias_store i =
     (if i = 1 then holding [(''doc'', fst (snd (blob ''k17'' ''body'')), ''body'')]
      else holding [])"

definition broken :: "nat \<Rightarrow> store \<Rightarrow> store" where
  "broken i w = w(i := (w i)\<lparr>bk_faulty := True\<rparr>)"

text \<open>
  A store in which one backend has no storage for the workspace yet, and a registry of
  three backends: the primary \<open>P2\<close>, then \<open>P3\<close> (backend 2), then \<open>P1\<close>.
\<close>

definition vacant :: "nat \<Rightarrow> store \<Rightarrow> store" where
  "vacant i w = w(i := (w i)\<lparr>bk_present := False\<rparr>)"

text \<open>A store whose backends serve their listings in pages of \<open>n + 1\<close> entries.\<close>

definition paged :: "nat \<Rightarrow> store \<Rightarrow> store" where
  "paged n w = (\<lambda>i. (w i)\<lparr>bk_page := n\<rparr>)"

text \<open>
  A backend over a counter as its world: every call returns, \<^verbatim>\<open>stat\<close> finds nothing, and
  every call adds one to the counter.
\<close>

definition counting_cursor :: "nat BlobStorageIterator" where
  "counting_cursor = \<lparr>it_next = (\<lambda>w. (Inr [], Suc w)), it_close = (\<lambda>w. (Inr (), Suc w))\<rparr>"

definition counting :: "nat StorageAdapter" where
  "counting =
     \<lparr>a_close = (\<lambda>w. (Inr (), Suc w)),
      a_exists = (\<lambda>ws w. (Inr True, Suc w)),
      a_make = (\<lambda>ws w. (Inr (), Suc w)),
      a_delete = (\<lambda>ws w. (Inr (), Suc w)),
      a_remove = (\<lambda>ws names w. (Inr (), Suc w)),
      a_listStream = (\<lambda>ws w. (Inr counting_cursor, Suc w)),
      a_stat = (\<lambda>ws n w. (Inr None, Suc w)),
      a_get = (\<lambda>ws oid w. (Inr [], Suc w)),
      a_partial = (\<lambda>ws oid offset len w. (Inr [], Suc w)),
      a_read = (\<lambda>ws oid w. (Inr [], Suc w)),
      a_put = (\<lambda>ws n payload ct sz w.
        (Inr \<lparr>uoi_etag = payload, uoi_versionId = None\<rparr>, Suc w))\<rparr>"

definition three_registry :: "store adapters" where
  "three_registry = [(''P2'', stub 0), (''P3'', stub 2), (''P1'', stub 1)]"

text \<open>
  A configuration that declares \<open>P1\<close>, then \<open>P3\<close>, then \<open>P2\<close>, and a factory that hands out
  the in-memory backends by name.
\<close>

definition three_configs :: StorageConfiguration where
  "three_configs = \<lparr>storages =
     [\<lparr>sc_name = ''P1'', sc_kind = ''minio''\<rparr>, \<lparr>sc_name = ''P3'', sc_kind = ''s3''\<rparr>,
      \<lparr>sc_name = ''P2'', sc_kind = ''datalake''\<rparr>]\<rparr>"

definition stub_factory :: "StorageConfig \<Rightarrow> (store StorageAdapter, store) io" where
  "stub_factory c w =
     (Inr (stub (if sc_name c = ''P2'' then 0 else if sc_name c = ''P1'' then 1 else 2)), w)"

section \<open>Properties\<close>

subsection \<open>Auxiliary facts\<close>

lemma invoke_eq:
  "invoke k c f s = (r, s') \<longleftrightarrow>
     (\<exists>w'. f (world s) = (r, w') \<and> s' = s\<lparr>trace := trace s @ [(k, c)], world := w'\<rparr>)"
  by (auto simp: invoke_def split: prod.splits)

lemmas stub_simps = stub_def guarded_def holding_def blob_def two_store_def init_sys_def
  content_def acme_def entry_def stub_cursor_def alias_store_def broken_def vacant_def

subsection \<open>The read lookup\<close>

lemma findProvider_skip:
  "W 0 = world s \<Longrightarrow>
   \<forall>i<length pre. a_stat (snd (pre ! i)) ws n (W i) = (Inr None, W (Suc i)) \<Longrightarrow>
   findProvider (pre @ post) ws n s =
     findProvider post ws n
       (s\<lparr>trace := trace s @ map (\<lambda>p. (fst p, Stat ws n)) pre, world := W (length pre)\<rparr>)"
proof (induction pre arbitrary: s W)
  case Nil
  then show ?case by simp
next
  case (Cons ka pre)
  obtain k a where ka: "ka = (k, a)" by (cases ka)
  from Cons.prems(2) have h: "a_stat a ws n (W 0) = (Inr None, W 1)"
    and t: "\<forall>i<length pre. a_stat (snd (pre ! i)) ws n (W (Suc i)) = (Inr None, W (Suc (Suc i)))"
    by (simp_all add: All_less_Suc2 ka)
  let ?s1 = "s\<lparr>trace := trace s @ [(k, Stat ws n)], world := W 1\<rparr>"
  have "findProvider ((ka # pre) @ post) ws n s = findProvider (pre @ post) ws n ?s1"
    using h Cons.prems(1) by (simp add: ka invoke_def)
  also have "\<dots> = findProvider post ws n
       (?s1\<lparr>trace := trace ?s1 @ map (\<lambda>p. (fst p, Stat ws n)) pre, world := W (Suc (length pre))\<rparr>)"
    using Cons.IH[of "\<lambda>i. W (Suc i)" ?s1] t by simp
  finally show ?case by (simp add: ka)
qed

lemma findProvider_threaded:
  "findProvider ads ws n s = (r, s') \<Longrightarrow>
   \<exists>j W. j \<le> length ads \<and> W 0 = world s \<and>
     s' = s\<lparr>trace := trace s @ map (\<lambda>p. (fst p, Stat ws n)) (take j ads), world := W j\<rparr> \<and>
     (case r of
        Inl e \<Rightarrow>
          0 < j \<and>
          (\<forall>i<j - 1. a_stat (snd (ads ! i)) ws n (W i) = (Inr None, W (Suc i))) \<and>
          a_stat (snd (ads ! (j - 1))) ws n (W (j - 1)) = (Inl e, W j)
      | Inr None \<Rightarrow>
          j = length ads \<and>
          (\<forall>i<j. a_stat (snd (ads ! i)) ws n (W i) = (Inr None, W (Suc i)))
      | Inr (Some f) \<Rightarrow>
          0 < j \<and>
          (\<forall>i<j - 1. a_stat (snd (ads ! i)) ws n (W i) = (Inr None, W (Suc i))) \<and>
          f_id f = fst (ads ! (j - 1)) \<and> f_provider f = snd (ads ! (j - 1)) \<and>
          a_stat (snd (ads ! (j - 1))) ws n (W (j - 1)) = (Inr (Some (f_stat f)), W j))"
proof (induction ads arbitrary: s)
  case Nil
  then show ?case
    by (intro exI[of _ 0] exI[of _ "\<lambda>i. world s"]) auto
next
  case (Cons ka rest)
  obtain k a where ka: "ka = (k, a)" by (cases ka)
  obtain r1 w1 where f1: "a_stat a ws n (world s) = (r1, w1)"
    by (cases "a_stat a ws n (world s)")
  let ?s1 = "s\<lparr>trace := trace s @ [(k, Stat ws n)], world := w1\<rparr>"
  let ?W1 = "\<lambda>i. case i of 0 \<Rightarrow> world s | Suc i' \<Rightarrow> w1"
  have inv: "invoke k (Stat ws n) (a_stat a ws n) s = (r1, ?s1)"
    using f1 by (simp add: invoke_def)
  show ?case
  proof (cases r1)
    case (Inl e)
    with Cons.prems ka inv have "r = Inl e" "s' = ?s1" by auto
    then show ?thesis using f1 Inl ka
      by (intro exI[of _ 1] exI[of _ ?W1]) auto
  next
    case (Inr ob)
    show ?thesis
    proof (cases ob)
      case (Some b)
      with Cons.prems ka inv Inr
      have "r = Inr (Some \<lparr>f_id = k, f_provider = a, f_stat = b\<rparr>)" "s' = ?s1"
        by auto
      then show ?thesis using f1 Inr Some ka
        by (intro exI[of _ 1] exI[of _ ?W1]) auto
    next
      case None
      with Cons.prems ka inv Inr have "findProvider rest ws n ?s1 = (r, s')" by auto
      from Cons.IH[OF this] obtain j W where j: "j \<le> length rest" "W 0 = w1"
        "s' = ?s1\<lparr>trace := trace ?s1 @ map (\<lambda>p. (fst p, Stat ws n)) (take j rest), world := W j\<rparr>"
        "(case r of
        Inl e \<Rightarrow>
          0 < j \<and>
          (\<forall>i<j - 1. a_stat (snd (rest ! i)) ws n (W i) = (Inr None, W (Suc i))) \<and>
          a_stat (snd (rest ! (j - 1))) ws n (W (j - 1)) = (Inl e, W j)
      | Inr None \<Rightarrow>
          j = length rest \<and>
          (\<forall>i<j. a_stat (snd (rest ! i)) ws n (W i) = (Inr None, W (Suc i)))
      | Inr (Some f) \<Rightarrow>
          0 < j \<and>
          (\<forall>i<j - 1. a_stat (snd (rest ! i)) ws n (W i) = (Inr None, W (Suc i))) \<and>
          f_id f = fst (rest ! (j - 1)) \<and> f_provider f = snd (rest ! (j - 1)) \<and>
          a_stat (snd (rest ! (j - 1))) ws n (W (j - 1)) = (Inr (Some (f_stat f)), W j))"
        by auto
      let ?W = "\<lambda>i. case i of 0 \<Rightarrow> world s | Suc i' \<Rightarrow> W i'"
      have hd: "a_stat (snd ka) ws n (?W 0) = (Inr None, ?W (Suc 0))"
        using f1 Inr None ka j(2) by simp
      have st: "s' = s\<lparr>trace := trace s @ map (\<lambda>p. (fst p, Stat ws n)) (take (Suc j) (ka # rest)),
          world := ?W (Suc j)\<rparr>"
        using j(3) ka by simp
      show ?thesis
      proof (cases r)
        case (Inl e)
        with j(4) have p: "0 < j"
          "\<forall>i<j - 1. a_stat (snd (rest ! i)) ws n (W i) = (Inr None, W (Suc i))"
          "a_stat (snd (rest ! (j - 1))) ws n (W (j - 1)) = (Inl e, W j)" by auto
        from p(1) obtain j0 where j0: "j = Suc j0" by (cases j) auto
        show ?thesis
          apply (intro exI[of _ "Suc j"] exI[of _ ?W])
          using j(1) st hd p(2,3) Inl unfolding j0
          apply (simp add: All_less_Suc2)
          done
      next
        case (Inr ob')
        show ?thesis
        proof (cases ob')
          case None
          with j(4) \<open>r = Inr ob'\<close> have p: "j = length rest"
            "\<forall>i<j. a_stat (snd (rest ! i)) ws n (W i) = (Inr None, W (Suc i))" by auto
          show ?thesis
            apply (intro exI[of _ "Suc j"] exI[of _ ?W])
            using j(1) st hd p None \<open>r = Inr ob'\<close>
            apply (simp add: All_less_Suc2)
            done
        next
          case (Some f)
          with j(4) \<open>r = Inr ob'\<close> have p: "0 < j"
            "\<forall>i<j - 1. a_stat (snd (rest ! i)) ws n (W i) = (Inr None, W (Suc i))"
            "f_id f = fst (rest ! (j - 1))" "f_provider f = snd (rest ! (j - 1))"
            "a_stat (snd (rest ! (j - 1))) ws n (W (j - 1)) = (Inr (Some (f_stat f)), W j)" by auto
          from p(1) obtain j0 where j0: "j = Suc j0" by (cases j) auto
          show ?thesis
            apply (intro exI[of _ "Suc j"] exI[of _ ?W])
            using j(1) st hd p(2-) Some \<open>r = Inr ob'\<close> unfolding j0
            apply (simp add: All_less_Suc2)
            done
        qed
      qed
    qed
  qed
qed

text \<open>
  C1. The lookup calls \<^verbatim>\<open>stat\<close> on the backends one after the other in
  registry order, starting at index 0, each call in the world the call before it left, and
  stops at the first call that throws or returns a stat record. Whatever the lookup returns, it
  has asked the first \<open>j\<close> registry entries and no other: the calls made are the
  \<open>Stat\<close> calls of these entries in order, the state returned holds the world the
  last call left, every entry before the last one asked returned nothing, and the result is
  that of the last one asked: its error, or its stat record with its name and the backend
  itself. When the lookup finds nothing, every entry was asked and each returned nothing.
  Conversely, when the entries before some entry return nothing, each in the world the one
  before it left, and that entry returns a stat record, the lookup stops there: it returns that
  entry with its record and asks no later backend; \<^verbatim>\<open>stat\<close> returns the
  record with the entry's name in \<^verbatim>\<open>provider\<close>, and
  \<^verbatim>\<open>get\<close> reads from that backend under the record's
  \<^verbatim>\<open>_id\<close>. In particular, when the primary has the object,
  \<^verbatim>\<open>stat\<close> returns the primary's record with the primary's name in
  \<^verbatim>\<open>provider\<close> and \<^verbatim>\<open>get\<close> reads from the
  primary, whatever the fallbacks hold, and no fallback is asked.
\<close>

theorem findProvider_primary_first:
  "(findProvider ads ws n s = (r, s') \<longrightarrow>
      (\<exists>j W. j \<le> length ads \<and> W 0 = world s \<and>
         s' = s\<lparr>trace := trace s @ map (\<lambda>p. (fst p, Stat ws n)) (take j ads), world := W j\<rparr> \<and>
         (case r of
            Inl e \<Rightarrow>
              0 < j \<and>
              (\<forall>i<j - 1. a_stat (snd (ads ! i)) ws n (W i) = (Inr None, W (Suc i))) \<and>
              a_stat (snd (ads ! (j - 1))) ws n (W (j - 1)) = (Inl e, W j)
          | Inr None \<Rightarrow>
              j = length ads \<and>
              (\<forall>i<j. a_stat (snd (ads ! i)) ws n (W i) = (Inr None, W (Suc i)))
          | Inr (Some f) \<Rightarrow>
              0 < j \<and>
              (\<forall>i<j - 1. a_stat (snd (ads ! i)) ws n (W i) = (Inr None, W (Suc i))) \<and>
              f_id f = fst (ads ! (j - 1)) \<and> f_provider f = snd (ads ! (j - 1)) \<and>
              a_stat (snd (ads ! (j - 1))) ws n (W (j - 1)) = (Inr (Some (f_stat f)), W j)))) \<and>
   (V 0 = world s \<and>
    (\<forall>i<length pre. a_stat (snd (pre ! i)) ws n (V i) = (Inr None, V (Suc i))) \<and>
    a_stat q ws n (V (length pre)) = (Inr (Some c), v') \<longrightarrow>
      findProvider (pre @ (l, q) # post) ws n s =
        (Inr (Some \<lparr>f_id = l, f_provider = q, f_stat = c\<rparr>),
         s\<lparr>trace := trace s @ map (\<lambda>p. (fst p, Stat ws n)) pre @ [(l, Stat ws n)], world := v'\<rparr>) \<and>
      stat (pre @ (l, q) # post) ws n s =
        (Inr (Some (c\<lparr>blob_provider := l\<rparr>)),
         s\<lparr>trace := trace s @ map (\<lambda>p. (fst p, Stat ws n)) pre @ [(l, Stat ws n)], world := v'\<rparr>) \<and>
      get (pre @ (l, q) # post) ws n s =
        invoke l (Get ws (blob_id c)) (a_get q ws (blob_id c))
          (s\<lparr>trace := trace s @ map (\<lambda>p. (fst p, Stat ws n)) pre @ [(l, Stat ws n)],
             world := v'\<rparr>)) \<and>
   (a_stat p ws n (world s) = (Inr (Some b), w') \<longrightarrow>
      stat ((k, p) # rest) ws n s =
        (Inr (Some (b\<lparr>blob_provider := k\<rparr>)),
         s\<lparr>trace := trace s @ [(k, Stat ws n)], world := w'\<rparr>) \<and>
      get ((k, p) # rest) ws n s =
        invoke k (Get ws (blob_id b)) (a_get p ws (blob_id b))
          (s\<lparr>trace := trace s @ [(k, Stat ws n)], world := w'\<rparr>))"
proof (intro conjI impI)
  assume "findProvider ads ws n s = (r, s')"
  then show "\<exists>j W. j \<le> length ads \<and> W 0 = world s \<and>
         s' = s\<lparr>trace := trace s @ map (\<lambda>p. (fst p, Stat ws n)) (take j ads), world := W j\<rparr> \<and>
         (case r of
            Inl e \<Rightarrow>
              0 < j \<and>
              (\<forall>i<j - 1. a_stat (snd (ads ! i)) ws n (W i) = (Inr None, W (Suc i))) \<and>
              a_stat (snd (ads ! (j - 1))) ws n (W (j - 1)) = (Inl e, W j)
          | Inr None \<Rightarrow>
              j = length ads \<and>
              (\<forall>i<j. a_stat (snd (ads ! i)) ws n (W i) = (Inr None, W (Suc i)))
          | Inr (Some f) \<Rightarrow>
              0 < j \<and>
              (\<forall>i<j - 1. a_stat (snd (ads ! i)) ws n (W i) = (Inr None, W (Suc i))) \<and>
              f_id f = fst (ads ! (j - 1)) \<and> f_provider f = snd (ads ! (j - 1)) \<and>
              a_stat (snd (ads ! (j - 1))) ws n (W (j - 1)) = (Inr (Some (f_stat f)), W j))"
    by (rule findProvider_threaded)
next
  assume a: "V 0 = world s \<and>
    (\<forall>i<length pre. a_stat (snd (pre ! i)) ws n (V i) = (Inr None, V (Suc i))) \<and>
    a_stat q ws n (V (length pre)) = (Inr (Some c), v')"
  then have v0: "V 0 = world s"
    and thr: "\<forall>i<length pre. a_stat (snd (pre ! i)) ws n (V i) = (Inr None, V (Suc i))"
    and hit: "a_stat q ws n (V (length pre)) = (Inr (Some c), v')"
    by blast+
  let ?s2 = "s\<lparr>trace := trace s @ map (\<lambda>p. (fst p, Stat ws n)) pre @ [(l, Stat ws n)],
      world := v'\<rparr>"
  show f: "findProvider (pre @ (l, q) # post) ws n s =
        (Inr (Some \<lparr>f_id = l, f_provider = q, f_stat = c\<rparr>), ?s2)"
    unfolding findProvider_skip[OF v0 thr] using hit by (simp add: invoke_def)
  show "stat (pre @ (l, q) # post) ws n s = (Inr (Some (c\<lparr>blob_provider := l\<rparr>)), ?s2)"
    unfolding stat_def f by simp
  show "get (pre @ (l, q) # post) ws n s =
        invoke l (Get ws (blob_id c)) (a_get q ws (blob_id c)) ?s2"
    unfolding get_def f by simp
next
  assume h: "a_stat p ws n (world s) = (Inr (Some b), w')"
  have f: "findProvider ((k, p) # rest) ws n s =
     (Inr (Some \<lparr>f_id = k, f_provider = p, f_stat = b\<rparr>),
      s\<lparr>trace := trace s @ [(k, Stat ws n)], world := w'\<rparr>)"
    using h by (simp add: invoke_def)
  show "stat ((k, p) # rest) ws n s =
        (Inr (Some (b\<lparr>blob_provider := k\<rparr>)),
         s\<lparr>trace := trace s @ [(k, Stat ws n)], world := w'\<rparr>)"
    unfolding stat_def f by simp
  show "get ((k, p) # rest) ws n s =
        invoke k (Get ws (blob_id b)) (a_get p ws (blob_id b))
          (s\<lparr>trace := trace s @ [(k, Stat ws n)], world := w'\<rparr>)"
    unfolding get_def f by simp
qed

text \<open>
  The primary \<open>P2\<close> and the fallback \<open>P1\<close> both hold \<open>b\<close>:
  \<^verbatim>\<open>stat\<close> returns the record of \<open>P2\<close> after the single call
  to \<open>P2\<close>, and \<^verbatim>\<open>get\<close> returns the primary's content. The
  object \<open>a\<close> is on the fallback only: the primary is asked first and returns
  nothing, then the fallback is asked, and \<^verbatim>\<open>get\<close> reads from the
  fallback. For \<open>zz\<close>, which nobody has, both are asked.
\<close>

theorem findProvider_primary_first_witness:
  "(a_stat (stub 0) acme ''b'' (world (init_sys two_store)) =
      (Inr (Some (fst (snd (blob ''b'' ''new b'')))), two_store) \<and>
    a_stat (stub 1) acme ''b'' two_store =
      (Inr (Some (fst (snd (blob ''b'' ''old b'')))), two_store) \<and>
    stat two_registry acme ''b'' (init_sys two_store) =
      (Inr (Some ((fst (snd (blob ''b'' ''new b'')))\<lparr>blob_provider := ''P2''\<rparr>)),
       (init_sys two_store)\<lparr>trace := [(''P2'', Stat acme ''b'')]\<rparr>) \<and>
    fst (get two_registry acme ''b'' (init_sys two_store)) = Inr ''new b'') \<and>
   (a_stat (stub 0) acme ''a'' two_store = (Inr None, two_store) \<and>
    a_stat (stub 1) acme ''a'' two_store =
      (Inr (Some (fst (snd (blob ''a'' ''old a'')))), two_store) \<and>
    stat two_registry acme ''a'' (init_sys two_store) =
      (Inr (Some ((fst (snd (blob ''a'' ''old a'')))\<lparr>blob_provider := ''P1''\<rparr>)),
       (init_sys two_store)\<lparr>trace := [(''P2'', Stat acme ''a''), (''P1'', Stat acme ''a'')]\<rparr>) \<and>
    get two_registry acme ''a'' (init_sys two_store) =
      (Inr ''old a'',
       (init_sys two_store)\<lparr>trace :=
          [(''P2'', Stat acme ''a''), (''P1'', Stat acme ''a''), (''P1'', Get acme ''a'')]\<rparr>)) \<and>
   (\<exists>j W. j \<le> length two_registry \<and> W 0 = two_store \<and>
      snd (findProvider two_registry acme ''zz'' (init_sys two_store)) =
        (init_sys two_store)\<lparr>trace := map (\<lambda>p. (fst p, Stat acme ''zz'')) (take j two_registry),
           world := W j\<rparr> \<and>
      j = length two_registry)"
proof -
  have h: "a_stat (stub 0) acme ''b'' (world (init_sys two_store)) =
     (Inr (Some (fst (snd (blob ''b'' ''new b'')))), two_store)"
    by (simp add: stub_simps)
  have h1: "a_stat (stub 1) acme ''b'' two_store =
     (Inr (Some (fst (snd (blob ''b'' ''old b'')))), two_store)"
    by (simp add: stub_simps)
  note t = findProvider_primary_first[where ws = acme and n = "''b''" and s = "init_sys two_store"
      and p = "stub 0" and b = "fst (snd (blob ''b'' ''new b''))" and w' = two_store
      and k = "''P2''" and rest = "[(''P1'', stub 1)]", THEN conjunct2, THEN conjunct2,
      THEN mp, OF h]
  have p1: "a_stat (stub 0) acme ''b'' (world (init_sys two_store)) =
      (Inr (Some (fst (snd (blob ''b'' ''new b'')))), two_store) \<and>
    a_stat (stub 1) acme ''b'' two_store =
      (Inr (Some (fst (snd (blob ''b'' ''old b'')))), two_store) \<and>
    stat two_registry acme ''b'' (init_sys two_store) =
      (Inr (Some ((fst (snd (blob ''b'' ''new b'')))\<lparr>blob_provider := ''P2''\<rparr>)),
       (init_sys two_store)\<lparr>trace := [(''P2'', Stat acme ''b'')]\<rparr>) \<and>
    fst (get two_registry acme ''b'' (init_sys two_store)) = Inr ''new b''"
    using h h1 t by (simp add: two_registry_def invoke_def) (simp add: stub_simps)
  have a0: "a_stat (stub 0) acme ''a'' two_store = (Inr None, two_store)"
    by (simp add: stub_simps)
  have a1: "a_stat (stub 1) acme ''a'' two_store =
      (Inr (Some (fst (snd (blob ''a'' ''old a'')))), two_store)"
    by (simp add: stub_simps)
  have hyp: "(\<lambda>i. two_store) 0 = world (init_sys two_store) \<and>
    (\<forall>i<length [(''P2'', stub 0)].
        a_stat (snd ([(''P2'', stub 0)] ! i)) acme ''a'' ((\<lambda>i. two_store) i) =
          (Inr None, (\<lambda>i. two_store) (Suc i))) \<and>
    a_stat (stub 1) acme ''a'' ((\<lambda>i. two_store) (length [(''P2'', stub (0::nat))])) =
      (Inr (Some (fst (snd (blob ''a'' ''old a'')))), two_store)"
    using a0 a1 by (simp add: init_sys_def)
  note u = findProvider_primary_first[where ws = acme and n = "''a''" and s = "init_sys two_store"
      and V = "\<lambda>i. two_store" and pre = "[(''P2'', stub 0)]" and q = "stub 1"
      and c = "fst (snd (blob ''a'' ''old a''))" and v' = two_store and l = "''P1''"
      and post = "[]", THEN conjunct2, THEN conjunct1, THEN mp, OF hyp]
  have p2: "a_stat (stub 0) acme ''a'' two_store = (Inr None, two_store) \<and>
    a_stat (stub 1) acme ''a'' two_store =
      (Inr (Some (fst (snd (blob ''a'' ''old a'')))), two_store) \<and>
    stat two_registry acme ''a'' (init_sys two_store) =
      (Inr (Some ((fst (snd (blob ''a'' ''old a'')))\<lparr>blob_provider := ''P1''\<rparr>)),
       (init_sys two_store)\<lparr>trace := [(''P2'', Stat acme ''a''), (''P1'', Stat acme ''a'')]\<rparr>) \<and>
    get two_registry acme ''a'' (init_sys two_store) =
      (Inr ''old a'',
       (init_sys two_store)\<lparr>trace :=
          [(''P2'', Stat acme ''a''), (''P1'', Stat acme ''a''), (''P1'', Get acme ''a'')]\<rparr>)"
    using a0 a1 u by (simp add: two_registry_def invoke_def) (simp add: stub_simps)
  let ?F = "findProvider two_registry acme ''zz'' (init_sys two_store)"
  have fz: "fst ?F = Inr None"
    by (simp add: two_registry_def invoke_def stub_simps)
  then have g: "findProvider two_registry acme ''zz'' (init_sys two_store) = (Inr None, snd ?F)"
    by (metis prod.collapse)
  from findProvider_primary_first[where ads = two_registry and ws = acme and n = "''zz''"
        and s = "init_sys two_store", THEN conjunct1, THEN mp, OF g]
  have p3: "\<exists>j W. j \<le> length two_registry \<and> W 0 = two_store \<and>
      snd (findProvider two_registry acme ''zz'' (init_sys two_store)) =
        (init_sys two_store)\<lparr>trace := map (\<lambda>p. (fst p, Stat acme ''zz'')) (take j two_registry),
           world := W j\<rparr> \<and>
      j = length two_registry"
    by (auto simp: init_sys_def)
  show ?thesis
    by (rule conjI[OF p1 conjI[OF p2 p3]])
qed

subsection \<open>Reads of an absent and of a located object\<close>

lemma findProvider_absent:
  "W 0 = world s \<Longrightarrow>
   \<forall>i<length ads. a_stat (snd (ads ! i)) ws n (W i) = (Inr None, W (Suc i)) \<Longrightarrow>
   findProvider ads ws n s =
     (Inr None,
      s\<lparr>trace := trace s @ map (\<lambda>p. (fst p, Stat ws n)) ads, world := W (length ads)\<rparr>)"
  using findProvider_skip[of W s ads ws n "[]"] by simp

text \<open>
  C4, as amended. When every backend's \<^verbatim>\<open>stat\<close> returns nothing for the
  name, each asked in the world the one before it left, whatever these calls do to the world,
  \<^verbatim>\<open>get\<close>, \<^verbatim>\<open>partial\<close> and
  \<^verbatim>\<open>read\<close> throw a \<^verbatim>\<open>NoSuchKeyError\<close>, whose code
  is \<open>NoSuchKey\<close> and whose message is the workspace name, \<open>missing\<close>
  and the object name, after asking every backend; \<^verbatim>\<open>stat\<close> does not
  throw and returns nothing. Said of the lookup: whenever it finds nothing,
  \<^verbatim>\<open>stat\<close> returns nothing and the three reads throw that error, in the
  state the lookup left. When the lookup locates the object, \<^verbatim>\<open>get\<close>,
  \<^verbatim>\<open>partial\<close> and \<^verbatim>\<open>read\<close> call the located
  backend with the \<^verbatim>\<open>_id\<close> of the stat record in place of the name, and
  \<^verbatim>\<open>stat\<close> returns the record stamped with the backend's name.
\<close>

theorem absent_reads_fail_stat_is_empty:
  "(W 0 = world s \<and>
    (\<forall>i<length ads. a_stat (snd (ads ! i)) ws n (W i) = (Inr None, W (Suc i))) \<longrightarrow>
      stat ads ws n s =
        (Inr None,
         s\<lparr>trace := trace s @ map (\<lambda>p. (fst p, Stat ws n)) ads, world := W (length ads)\<rparr>) \<and>
      get ads ws n s =
        (Inl (NoSuchKeyError (ws_name ws @ '' missing '' @ n)),
         s\<lparr>trace := trace s @ map (\<lambda>p. (fst p, Stat ws n)) ads, world := W (length ads)\<rparr>) \<and>
      partial ads ws n offset len s =
        (Inl (NoSuchKeyError (ws_name ws @ '' missing '' @ n)),
         s\<lparr>trace := trace s @ map (\<lambda>p. (fst p, Stat ws n)) ads, world := W (length ads)\<rparr>) \<and>
      read ads ws n s =
        (Inl (NoSuchKeyError (ws_name ws @ '' missing '' @ n)),
         s\<lparr>trace := trace s @ map (\<lambda>p. (fst p, Stat ws n)) ads, world := W (length ads)\<rparr>) \<and>
      code (NoSuchKeyError (ws_name ws @ '' missing '' @ n)) = Some ''NoSuchKey'' \<and>
      message (NoSuchKeyError (ws_name ws @ '' missing '' @ n)) =
        ws_name ws @ '' missing '' @ n) \<and>
   (findProvider ads ws n s = (Inr None, s0) \<longrightarrow>
      stat ads ws n s = (Inr None, s0) \<and>
      get ads ws n s = (Inl (NoSuchKeyError (ws_name ws @ '' missing '' @ n)), s0) \<and>
      partial ads ws n offset len s =
        (Inl (NoSuchKeyError (ws_name ws @ '' missing '' @ n)), s0) \<and>
      read ads ws n s = (Inl (NoSuchKeyError (ws_name ws @ '' missing '' @ n)), s0)) \<and>
   (findProvider ads ws n s = (Inr (Some f), s1) \<longrightarrow>
      stat ads ws n s = (Inr (Some ((f_stat f)\<lparr>blob_provider := f_id f\<rparr>)), s1) \<and>
      get ads ws n s =
        invoke (f_id f) (Get ws (blob_id (f_stat f)))
          (a_get (f_provider f) ws (blob_id (f_stat f))) s1 \<and>
      partial ads ws n offset len s =
        invoke (f_id f) (Partial ws (blob_id (f_stat f)) offset len)
          (a_partial (f_provider f) ws (blob_id (f_stat f)) offset len) s1 \<and>
      read ads ws n s =
        invoke (f_id f) (Read ws (blob_id (f_stat f)))
          (a_read (f_provider f) ws (blob_id (f_stat f))) s1)"
proof (intro conjI impI)
  assume a: "W 0 = world s \<and>
    (\<forall>i<length ads. a_stat (snd (ads ! i)) ws n (W i) = (Inr None, W (Suc i)))"
  then have w0: "W 0 = world s"
    and thr: "\<forall>i<length ads. a_stat (snd (ads ! i)) ws n (W i) = (Inr None, W (Suc i))"
    by blast+
  note h = findProvider_absent[OF w0 thr]
  let ?s' = "s\<lparr>trace := trace s @ map (\<lambda>p. (fst p, Stat ws n)) ads, world := W (length ads)\<rparr>"
  show "stat ads ws n s = (Inr None, ?s')"
    by (simp add: stat_def h)
  show "get ads ws n s = (Inl (NoSuchKeyError (ws_name ws @ '' missing '' @ n)), ?s')"
    by (simp add: get_def h missing_def)
  show "partial ads ws n offset len s =
      (Inl (NoSuchKeyError (ws_name ws @ '' missing '' @ n)), ?s')"
    by (simp add: partial_def h missing_def)
  show "read ads ws n s = (Inl (NoSuchKeyError (ws_name ws @ '' missing '' @ n)), ?s')"
    by (simp add: read_def h missing_def)
  show "code (NoSuchKeyError (ws_name ws @ '' missing '' @ n)) = Some ''NoSuchKey''"
    by simp
  show "message (NoSuchKeyError (ws_name ws @ '' missing '' @ n)) =
        ws_name ws @ '' missing '' @ n"
    by simp
next
  assume h: "findProvider ads ws n s = (Inr None, s0)"
  show "stat ads ws n s = (Inr None, s0)"
    by (simp add: stat_def h)
  show "get ads ws n s = (Inl (NoSuchKeyError (ws_name ws @ '' missing '' @ n)), s0)"
    by (simp add: get_def h missing_def)
  show "partial ads ws n offset len s =
      (Inl (NoSuchKeyError (ws_name ws @ '' missing '' @ n)), s0)"
    by (simp add: partial_def h missing_def)
  show "read ads ws n s = (Inl (NoSuchKeyError (ws_name ws @ '' missing '' @ n)), s0)"
    by (simp add: read_def h missing_def)
next
  assume h: "findProvider ads ws n s = (Inr (Some f), s1)"
  show "stat ads ws n s = (Inr (Some ((f_stat f)\<lparr>blob_provider := f_id f\<rparr>)), s1)"
    by (simp add: stat_def h)
  show "get ads ws n s =
        invoke (f_id f) (Get ws (blob_id (f_stat f)))
          (a_get (f_provider f) ws (blob_id (f_stat f))) s1"
    by (simp add: get_def h)
  show "partial ads ws n offset len s =
        invoke (f_id f) (Partial ws (blob_id (f_stat f)) offset len)
          (a_partial (f_provider f) ws (blob_id (f_stat f)) offset len) s1"
    by (simp add: partial_def h)
  show "read ads ws n s =
        invoke (f_id f) (Read ws (blob_id (f_stat f)))
          (a_read (f_provider f) ws (blob_id (f_stat f))) s1"
    by (simp add: read_def h)
qed

text \<open>
  On the two backends, \<open>zz\<close> is nowhere. On two counting backends, whose every call
  changes the world, \<open>zz\<close> is nowhere either, and the reads fail after both were
  asked, in the world the second call left. In the store with the alias, \<open>doc\<close> is
  read from the fallback under \<open>k17\<close>.
\<close>

theorem absent_reads_fail_stat_is_empty_witness:
  "(a_stat (stub 0) acme ''zz'' two_store = (Inr None, two_store) \<and>
    a_stat (stub 1) acme ''zz'' two_store = (Inr None, two_store) \<and>
    get two_registry acme ''zz'' (init_sys two_store) =
      (Inl (NoSuchKeyError ''acme missing zz''),
       (init_sys two_store)\<lparr>trace := [(''P2'', Stat acme ''zz''), (''P1'', Stat acme ''zz'')]\<rparr>) \<and>
    fst (read two_registry acme ''zz'' (init_sys two_store)) =
      Inl (NoSuchKeyError ''acme missing zz'') \<and>
    fst (partial two_registry acme ''zz'' 0 None (init_sys two_store)) =
      Inl (NoSuchKeyError ''acme missing zz'') \<and>
    fst (stat two_registry acme ''zz'' (init_sys two_store)) = Inr None) \<and>
   (a_stat counting acme ''zz'' 0 = (Inr None, 1) \<and>
    a_stat counting acme ''zz'' 1 = (Inr None, 2) \<and>
    get [(''C1'', counting), (''C2'', counting)] acme ''zz'' (init_sys 0) =
      (Inl (NoSuchKeyError ''acme missing zz''),
       (init_sys 0)\<lparr>trace := [(''C1'', Stat acme ''zz''), (''C2'', Stat acme ''zz'')],
          world := 2\<rparr>) \<and>
    stat [(''C1'', counting), (''C2'', counting)] acme ''zz'' (init_sys 0) =
      (Inr None,
       (init_sys 0)\<lparr>trace := [(''C1'', Stat acme ''zz''), (''C2'', Stat acme ''zz'')],
          world := 2\<rparr>)) \<and>
   (fst (findProvider two_registry acme ''doc'' (init_sys alias_store)) =
      Inr (Some \<lparr>f_id = ''P1'', f_provider = stub 1,
        f_stat = fst (snd (blob ''k17'' ''body''))\<rparr>) \<and>
    fst (get two_registry acme ''doc'' (init_sys alias_store)) = Inr ''body'' \<and>
    trace (snd (get two_registry acme ''doc'' (init_sys alias_store))) =
      [(''P2'', Stat acme ''doc''), (''P1'', Stat acme ''doc''), (''P1'', Get acme ''k17'')])"
proof -
  have a0: "a_stat (stub 0) acme ''zz'' two_store = (Inr None, two_store)"
    and a1: "a_stat (stub 1) acme ''zz'' two_store = (Inr None, two_store)"
    by (simp_all add: stub_simps)
  have hyp: "(\<lambda>i. two_store) 0 = world (init_sys two_store) \<and>
    (\<forall>i<length two_registry.
        a_stat (snd (two_registry ! i)) acme ''zz'' ((\<lambda>i. two_store) i) =
          (Inr None, (\<lambda>i. two_store) (Suc i)))"
    using a0 a1 by (simp add: init_sys_def two_registry_def All_less_Suc)
  note t = absent_reads_fail_stat_is_empty[where ads = two_registry and ws = acme
      and n = "''zz''" and s = "init_sys two_store" and W = "\<lambda>i. two_store" and offset = 0
      and len = None, THEN conjunct1, THEN mp, OF hyp]
  have p1: "a_stat (stub 0) acme ''zz'' two_store = (Inr None, two_store) \<and>
    a_stat (stub 1) acme ''zz'' two_store = (Inr None, two_store) \<and>
    get two_registry acme ''zz'' (init_sys two_store) =
      (Inl (NoSuchKeyError ''acme missing zz''),
       (init_sys two_store)\<lparr>trace := [(''P2'', Stat acme ''zz''), (''P1'', Stat acme ''zz'')]\<rparr>) \<and>
    fst (read two_registry acme ''zz'' (init_sys two_store)) =
      Inl (NoSuchKeyError ''acme missing zz'') \<and>
    fst (partial two_registry acme ''zz'' 0 None (init_sys two_store)) =
      Inl (NoSuchKeyError ''acme missing zz'') \<and>
    fst (stat two_registry acme ''zz'' (init_sys two_store)) = Inr None"
    using a0 a1 t by (simp add: acme_def init_sys_def two_registry_def)
  have c0: "a_stat counting acme ''zz'' 0 = (Inr None, 1)"
    and c1: "a_stat counting acme ''zz'' 1 = (Inr None, 2)"
    by (simp_all add: counting_def)
  have hyc: "(\<lambda>i. i) 0 = world (init_sys (0::nat)) \<and>
    (\<forall>i<length [(''C1'', counting), (''C2'', counting)].
        a_stat (snd ([(''C1'', counting), (''C2'', counting)] ! i)) acme ''zz'' ((\<lambda>i. i) i) =
          (Inr None, (\<lambda>i. i) (Suc i)))"
    by (simp add: init_sys_def All_less_Suc counting_def)
  note tc = absent_reads_fail_stat_is_empty[where ads = "[(''C1'', counting), (''C2'', counting)]"
      and ws = acme and n = "''zz''" and s = "init_sys 0" and W = "\<lambda>i. i",
      THEN conjunct1, THEN mp, OF hyc]
  have p2: "a_stat counting acme ''zz'' 0 = (Inr None, 1) \<and>
    a_stat counting acme ''zz'' 1 = (Inr None, 2) \<and>
    get [(''C1'', counting), (''C2'', counting)] acme ''zz'' (init_sys 0) =
      (Inl (NoSuchKeyError ''acme missing zz''),
       (init_sys 0)\<lparr>trace := [(''C1'', Stat acme ''zz''), (''C2'', Stat acme ''zz'')],
          world := 2\<rparr>) \<and>
    stat [(''C1'', counting), (''C2'', counting)] acme ''zz'' (init_sys 0) =
      (Inr None,
       (init_sys 0)\<lparr>trace := [(''C1'', Stat acme ''zz''), (''C2'', Stat acme ''zz'')],
          world := 2\<rparr>)"
    using c0 c1 tc by (simp add: acme_def init_sys_def)
  have b: "findProvider two_registry acme ''doc'' (init_sys alias_store) =
     (Inr (Some \<lparr>f_id = ''P1'', f_provider = stub 1, f_stat = fst (snd (blob ''k17'' ''body''))\<rparr>),
      (init_sys alias_store)\<lparr>trace := [(''P2'', Stat acme ''doc''), (''P1'', Stat acme ''doc'')]\<rparr>)"
    by (simp add: two_registry_def invoke_def stub_simps)
  note u = absent_reads_fail_stat_is_empty[where ads = two_registry and ws = acme
      and n = "''doc''" and s = "init_sys alias_store", THEN conjunct2, THEN conjunct2,
      THEN mp, OF b]
  have p3: "fst (findProvider two_registry acme ''doc'' (init_sys alias_store)) =
      Inr (Some \<lparr>f_id = ''P1'', f_provider = stub 1,
        f_stat = fst (snd (blob ''k17'' ''body''))\<rparr>) \<and>
    fst (get two_registry acme ''doc'' (init_sys alias_store)) = Inr ''body'' \<and>
    trace (snd (get two_registry acme ''doc'' (init_sys alias_store))) =
      [(''P2'', Stat acme ''doc''), (''P1'', Stat acme ''doc''), (''P1'', Get acme ''k17'')]"
    using b u by (simp add: invoke_def stub_simps)
  show ?thesis
    by (rule conjI[OF p1 conjI[OF p2 p3]])
qed

text \<open>
  C4 as stated fails for \<^verbatim>\<open>stat\<close>: for a name that no backend has, it
  returns nothing and does not throw.
\<close>

theorem stat_absent_counterexample:
  "fst (a_stat (stub 0) acme ''zz'' two_store) = Inr None \<and>
   fst (a_stat (stub 1) acme ''zz'' two_store) = Inr None \<and>
   fst (stat two_registry acme ''zz'' (init_sys two_store)) = Inr None \<and>
   fst (stat two_registry acme ''zz'' (init_sys two_store)) \<noteq>
     Inl (NoSuchKeyError ''acme missing zz'')"
  by code_simp

subsection \<open>Writing goes to the primary\<close>

text \<open>
  C3. \<^verbatim>\<open>put\<close> makes one backend call, the \<^verbatim>\<open>put\<close> of the backend at registry index 0 with
  the arguments it was given: the outcome and the backend world after it are those of
  that call, and the only thing the observer records is that call, so no lookup, no
  existence check and no removal is made on any backend. On in-memory backends, every
  backend other than the primary is left as it was. (On an empty registry \<^verbatim>\<open>put\<close> throws
  before calling anything.)
\<close>

theorem put_primary_only:
  "put [] ws n payload ct sz s = (Inl TypeError, s) \<and>
   (put ((k, a) # rest) ws n payload ct sz s = (r, s') \<longrightarrow>
      a_put a ws n payload ct sz (world s) = (r, world s') \<and>
      s' = s\<lparr>trace := trace s @ [(k, Put ws n payload ct sz)], world := world s'\<rparr>) \<and>
   (j \<noteq> i \<longrightarrow> world (snd (put ((k, stub i) # rest) ws n payload ct sz s)) j = world s j)"
proof (intro conjI impI)
  show "put [] ws n payload ct sz s = (Inl TypeError, s)"
    by (simp add: put_def)
next
  assume "put ((k, a) # rest) ws n payload ct sz s = (r, s')"
  then have "invoke k (Put ws n payload ct sz) (a_put a ws n payload ct sz) s = (r, s')"
    by (simp add: put_def)
  then obtain w' where w: "a_put a ws n payload ct sz (world s) = (r, w')"
    "s' = s\<lparr>trace := trace s @ [(k, Put ws n payload ct sz)], world := w'\<rparr>"
    unfolding invoke_eq by blast
  from w show "a_put a ws n payload ct sz (world s) = (r, world s')" by simp
  from w show "s' = s\<lparr>trace := trace s @ [(k, Put ws n payload ct sz)], world := world s'\<rparr>"
    by simp
next
  assume "j \<noteq> i"
  then show "world (snd (put ((k, stub i) # rest) ws n payload ct sz s)) j = world s j"
    by (simp add: put_def invoke_def stub_def guarded_def)
qed

text \<open>
  Writing \<open>b\<close> on the two backends: one call on \<open>P2\<close>, the fallback keeps its old \<open>b\<close>, and a
  following \<^verbatim>\<open>get\<close> returns what was written.
\<close>

theorem put_primary_only_witness:
  "trace (snd (put two_registry acme ''b'' ''fresh b'' ''text/plain'' None (init_sys two_store))) =
     [(''P2'', Put acme ''b'' ''fresh b'' ''text/plain'' None)] \<and>
   (1::nat) \<noteq> 0 \<and>
   world (snd (put two_registry acme ''b'' ''fresh b'' ''text/plain'' None (init_sys two_store))) 1 =
     two_store 1 \<and>
   map_of (bk_blobs (two_store 1)) ''b'' = Some (snd (blob ''b'' ''old b'')) \<and>
   fst (get two_registry acme ''b''
     (snd (put two_registry acme ''b'' ''fresh b'' ''text/plain'' None (init_sys two_store)))) =
     Inr ''fresh b''"
proof -
  let ?p = "put two_registry acme ''b'' ''fresh b'' ''text/plain'' None (init_sys two_store)"
  have e: "put ((''P2'', stub 0) # [(''P1'', stub 1)]) acme ''b'' ''fresh b'' ''text/plain'' None
      (init_sys two_store) = (fst ?p, snd ?p)"
    by (simp add: two_registry_def)
  note t = put_primary_only[where k = "''P2''" and a = "stub 0" and rest = "[(''P1'', stub 1)]"
      and ws = acme and n = "''b''" and payload = "''fresh b''" and ct = "''text/plain''"
      and sz = None and s = "init_sys two_store" and i = 0 and j = 1]
  from t have f: "world (snd ?p) 1 = world (init_sys two_store) 1"
    by (simp add: two_registry_def)
  from t e have g: "snd ?p = (init_sys two_store)\<lparr>trace := trace (init_sys two_store) @
      [(''P2'', Put acme ''b'' ''fresh b'' ''text/plain'' None)], world := world (snd ?p)\<rparr>"
    by blast
  have h: "trace (snd ?p) = [(''P2'', Put acme ''b'' ''fresh b'' ''text/plain'' None)]"
    by (subst g) (simp add: init_sys_def)
  have i: "map_of (bk_blobs (two_store 1)) ''b'' = Some (snd (blob ''b'' ''old b''))"
    by (simp add: stub_simps)
  have j: "fst (get two_registry acme ''b'' (snd ?p)) = Inr ''fresh b''"
    by code_simp
  show ?thesis
    using f h i j by (simp add: init_sys_def)
qed

subsection \<open>Removing named objects\<close>

lemma remove_skip:
  "W 0 = world s \<Longrightarrow>
   \<forall>i<length pre. a_remove (snd (pre ! i)) ws names (W i) = (Inr (), W (Suc i)) \<Longrightarrow>
   remove (pre @ post) ws names s =
     remove post ws names
       (s\<lparr>trace := trace s @ map (\<lambda>p. (fst p, Remove ws names)) pre, world := W (length pre)\<rparr>)"
proof (induction pre arbitrary: s W)
  case Nil
  then show ?case by simp
next
  case (Cons ka pre)
  obtain k a where ka: "ka = (k, a)" by (cases ka)
  from Cons.prems(2) have h: "a_remove a ws names (W 0) = (Inr (), W 1)"
    and t: "\<forall>i<length pre. a_remove (snd (pre ! i)) ws names (W (Suc i)) = (Inr (), W (Suc (Suc i)))"
    by (simp_all add: All_less_Suc2 ka)
  let ?s1 = "s\<lparr>trace := trace s @ [(k, Remove ws names)], world := W 1\<rparr>"
  have "remove ((ka # pre) @ post) ws names s = remove (pre @ post) ws names ?s1"
    using h Cons.prems(1) by (simp add: ka invoke_def)
  also have "\<dots> = remove post ws names
       (?s1\<lparr>trace := trace ?s1 @ map (\<lambda>p. (fst p, Remove ws names)) pre, world := W (Suc (length pre))\<rparr>)"
    using Cons.IH[of "\<lambda>i. W (Suc i)" ?s1] t by simp
  finally show ?case by (simp add: ka)
qed

lemma remove_threaded:
  "remove ads ws names s = (r, s') \<Longrightarrow>
   \<exists>j W. j \<le> length ads \<and> W 0 = world s \<and>
     s' = s\<lparr>trace := trace s @ map (\<lambda>p. (fst p, Remove ws names)) (take j ads), world := W j\<rparr> \<and>
     (case r of
        Inr u \<Rightarrow>
          j = length ads \<and>
          (\<forall>i<j. a_remove (snd (ads ! i)) ws names (W i) = (Inr (), W (Suc i)))
      | Inl e \<Rightarrow>
          0 < j \<and>
          (\<forall>i<j - 1. a_remove (snd (ads ! i)) ws names (W i) = (Inr (), W (Suc i))) \<and>
          a_remove (snd (ads ! (j - 1))) ws names (W (j - 1)) = (Inl e, W j))"
proof (induction ads arbitrary: s)
  case Nil
  then show ?case
    by (intro exI[of _ 0] exI[of _ "\<lambda>i. world s"]) auto
next
  case (Cons ka rest)
  obtain k a where ka: "ka = (k, a)" by (cases ka)
  obtain r1 w1 where f1: "a_remove a ws names (world s) = (r1, w1)"
    by (cases "a_remove a ws names (world s)")
  let ?s1 = "s\<lparr>trace := trace s @ [(k, Remove ws names)], world := w1\<rparr>"
  let ?W1 = "\<lambda>i. case i of 0 \<Rightarrow> world s | Suc i' \<Rightarrow> w1"
  have inv: "invoke k (Remove ws names) (a_remove a ws names) s = (r1, ?s1)"
    using f1 by (simp add: invoke_def)
  show ?case
  proof (cases r1)
    case (Inl e)
    with Cons.prems ka inv have "r = Inl e" "s' = ?s1" by auto
    then show ?thesis using f1 Inl ka
      by (intro exI[of _ 1] exI[of _ ?W1]) auto
  next
    case (Inr u)
    with Cons.prems ka inv have "remove rest ws names ?s1 = (r, s')" by auto
    from Cons.IH[OF this] obtain j W where j: "j \<le> length rest" "W 0 = w1"
      "s' = ?s1\<lparr>trace := trace ?s1 @ map (\<lambda>p. (fst p, Remove ws names)) (take j rest), world := W j\<rparr>"
      "(case r of
        Inr u \<Rightarrow>
          j = length rest \<and>
          (\<forall>i<j. a_remove (snd (rest ! i)) ws names (W i) = (Inr (), W (Suc i)))
      | Inl e \<Rightarrow>
          0 < j \<and>
          (\<forall>i<j - 1. a_remove (snd (rest ! i)) ws names (W i) = (Inr (), W (Suc i))) \<and>
          a_remove (snd (rest ! (j - 1))) ws names (W (j - 1)) = (Inl e, W j))"
      by auto
    let ?W = "\<lambda>i. case i of 0 \<Rightarrow> world s | Suc i' \<Rightarrow> W i'"
    have hd: "a_remove (snd ka) ws names (?W 0) = (Inr (), ?W (Suc 0))"
      using f1 Inr ka j(2) by simp
    have st: "s' = s\<lparr>trace := trace s @ map (\<lambda>p. (fst p, Remove ws names)) (take (Suc j) (ka # rest)),
        world := ?W (Suc j)\<rparr>"
      using j(3) ka by simp
    show ?thesis
    proof (cases r)
      case (Inl e)
      with j(4) have p: "0 < j"
        "\<forall>i<j - 1. a_remove (snd (rest ! i)) ws names (W i) = (Inr (), W (Suc i))"
        "a_remove (snd (rest ! (j - 1))) ws names (W (j - 1)) = (Inl e, W j)" by auto
      from p(1) obtain j0 where j0: "j = Suc j0" by (cases j) auto
      show ?thesis
        apply (intro exI[of _ "Suc j"] exI[of _ ?W])
        using j(1) st hd p(2,3) Inl unfolding j0
        apply (simp add: All_less_Suc2)
        done
    next
      case (Inr u')
      with j(4) have p: "j = length rest"
        "\<forall>i<j. a_remove (snd (rest ! i)) ws names (W i) = (Inr (), W (Suc i))" by auto
      show ?thesis
        apply (intro exI[of _ "Suc j"] exI[of _ ?W])
        using j(1) st hd p Inr
        apply (simp add: All_less_Suc2)
        done
    qed
  qed
qed

text \<open>
  C6. \<^verbatim>\<open>remove\<close> calls \<^verbatim>\<open>remove\<close> with the given
  names on the backends in registry order, each call in the world the call before it left, with
  no other call in between and no \<^verbatim>\<open>exists\<close> call. Whatever it returns,
  it has called the first \<open>j\<close> registry entries and no other: the state returned
  differs from the state of the call by the \<open>Remove\<close> calls of these entries in the
  trace and by the world, which is the one the last call left. When it returns normally, every
  backend was called and every call returned. When it throws, the calls before the last
  returned and the last call threw the error. Conversely, when every backend's
  \<^verbatim>\<open>remove\<close> returns, each in the world the one before it left,
  \<^verbatim>\<open>remove\<close> returns after calling all of them; and when the entries
  before some entry return and that entry throws, \<^verbatim>\<open>remove\<close> throws that
  error after that call, and no later backend is called.
\<close>

theorem remove_broadcast:
  "(remove ads ws names s = (r, s') \<longrightarrow>
      (\<exists>j W. j \<le> length ads \<and> W 0 = world s \<and>
         s' = s\<lparr>trace := trace s @ map (\<lambda>p. (fst p, Remove ws names)) (take j ads), world := W j\<rparr> \<and>
         (case r of
            Inr u \<Rightarrow>
              j = length ads \<and>
              (\<forall>i<j. a_remove (snd (ads ! i)) ws names (W i) = (Inr (), W (Suc i)))
          | Inl e \<Rightarrow>
              0 < j \<and>
              (\<forall>i<j - 1. a_remove (snd (ads ! i)) ws names (W i) = (Inr (), W (Suc i))) \<and>
              a_remove (snd (ads ! (j - 1))) ws names (W (j - 1)) = (Inl e, W j)))) \<and>
   (U 0 = world s \<and>
    (\<forall>i<length ads. a_remove (snd (ads ! i)) ws names (U i) = (Inr (), U (Suc i))) \<longrightarrow>
      remove ads ws names s =
        (Inr (),
         s\<lparr>trace := trace s @ map (\<lambda>p. (fst p, Remove ws names)) ads, world := U (length ads)\<rparr>)) \<and>
   (V 0 = world s \<and>
    (\<forall>i<length pre. a_remove (snd (pre ! i)) ws names (V i) = (Inr (), V (Suc i))) \<and>
    a_remove q ws names (V (length pre)) = (Inl x, v') \<longrightarrow>
      remove (pre @ (l, q) # post) ws names s =
        (Inl x,
         s\<lparr>trace := trace s @ map (\<lambda>p. (fst p, Remove ws names)) pre @ [(l, Remove ws names)], world := v'\<rparr>))"
proof (intro conjI impI)
  assume "remove ads ws names s = (r, s')"
  then show "\<exists>j W. j \<le> length ads \<and> W 0 = world s \<and>
         s' = s\<lparr>trace := trace s @ map (\<lambda>p. (fst p, Remove ws names)) (take j ads), world := W j\<rparr> \<and>
         (case r of
            Inr u \<Rightarrow>
              j = length ads \<and>
              (\<forall>i<j. a_remove (snd (ads ! i)) ws names (W i) = (Inr (), W (Suc i)))
          | Inl e \<Rightarrow>
              0 < j \<and>
              (\<forall>i<j - 1. a_remove (snd (ads ! i)) ws names (W i) = (Inr (), W (Suc i))) \<and>
              a_remove (snd (ads ! (j - 1))) ws names (W (j - 1)) = (Inl e, W j))"
    by (rule remove_threaded)
next
  assume "U 0 = world s \<and>
    (\<forall>i<length ads. a_remove (snd (ads ! i)) ws names (U i) = (Inr (), U (Suc i)))"
  then have u0: "U 0 = world s"
    and thr: "\<forall>i<length ads. a_remove (snd (ads ! i)) ws names (U i) = (Inr (), U (Suc i))"
    by blast+
  show "remove ads ws names s =
        (Inr (),
         s\<lparr>trace := trace s @ map (\<lambda>p. (fst p, Remove ws names)) ads, world := U (length ads)\<rparr>)"
    using remove_skip[OF u0 thr, of "[]"] by simp
next
  assume "V 0 = world s \<and>
    (\<forall>i<length pre. a_remove (snd (pre ! i)) ws names (V i) = (Inr (), V (Suc i))) \<and>
    a_remove q ws names (V (length pre)) = (Inl x, v')"
  then have v0: "V 0 = world s"
    and thr: "\<forall>i<length pre. a_remove (snd (pre ! i)) ws names (V i) = (Inr (), V (Suc i))"
    and thrown: "a_remove q ws names (V (length pre)) = (Inl x, v')"
    by blast+
  show "remove (pre @ (l, q) # post) ws names s =
        (Inl x,
         s\<lparr>trace := trace s @ map (\<lambda>p. (fst p, Remove ws names)) pre @ [(l, Remove ws names)], world := v'\<rparr>)"
    unfolding remove_skip[OF v0 thr] using thrown by (simp add: invoke_def)
qed

text \<open>
  With the primary out of order the loop stops after one call; on the two working backends both
  are called, the world is the one their two calls leave, and \<open>b\<close> is gone from the
  primary and from the fallback.
\<close>

theorem remove_broadcast_witness:
  "(a_remove (stub 0) acme [''b''] (broken 0 two_store) = (Inl unavailable, broken 0 two_store) \<and>
    remove two_registry acme [''b''] (init_sys (broken 0 two_store)) =
      (Inl unavailable,
       (init_sys (broken 0 two_store))\<lparr>trace := [(''P2'', Remove acme [''b''])]\<rparr>)) \<and>
   (fst (a_remove (stub 0) acme [''b''] two_store) = Inr () \<and>
    fst (a_remove (stub 1) acme [''b''] (snd (a_remove (stub 0) acme [''b''] two_store))) =
      Inr () \<and>
    remove two_registry acme [''b''] (init_sys two_store) =
      (Inr (),
       (init_sys two_store)
         \<lparr>trace := [(''P2'', Remove acme [''b'']), (''P1'', Remove acme [''b''])],
          world := snd (a_remove (stub 1) acme [''b'']
            (snd (a_remove (stub 0) acme [''b''] two_store)))\<rparr>) \<and>
    map fst (bk_blobs (world (snd (remove two_registry acme [''b''] (init_sys two_store))) 0)) =
      [''c''] \<and>
    map fst (bk_blobs (world (snd (remove two_registry acme [''b''] (init_sys two_store))) 1)) =
      [''a'']) \<and>
   (\<exists>j W. j \<le> length two_registry \<and> W 0 = two_store \<and>
      snd (remove two_registry acme [''b''] (init_sys two_store)) =
        (init_sys two_store)
          \<lparr>trace := map (\<lambda>p. (fst p, Remove acme [''b''])) (take j two_registry),
           world := W j\<rparr> \<and>
      j = length two_registry)"
proof -
  have a: "a_remove (stub 0) acme [''b''] (broken 0 two_store) =
      (Inl unavailable, broken 0 two_store)"
    by (simp add: stub_simps)
  have hyp: "(\<lambda>i. broken 0 two_store) 0 = world (init_sys (broken 0 two_store)) \<and>
    (\<forall>i<length ([] :: store adapters).
        a_remove (snd ([] ! i)) acme [''b''] ((\<lambda>i. broken 0 two_store) i) =
          (Inr (), (\<lambda>i. broken 0 two_store) (Suc i))) \<and>
    a_remove (stub 0) acme [''b''] ((\<lambda>i. broken 0 two_store) (length ([] :: store adapters))) =
      (Inl unavailable, broken 0 two_store)"
    using a by (simp add: init_sys_def)
  note t = remove_broadcast[where s = "init_sys (broken 0 two_store)" and ws = acme
      and names = "[''b'']" and V = "\<lambda>i. broken 0 two_store" and pre = "[]" and q = "stub 0"
      and x = unavailable and v' = "broken 0 two_store" and l = "''P2''"
      and post = "[(''P1'', stub 1)]", THEN conjunct2, THEN conjunct2, THEN mp, OF hyp]
  have p1: "a_remove (stub 0) acme [''b''] (broken 0 two_store) =
      (Inl unavailable, broken 0 two_store) \<and>
    remove two_registry acme [''b''] (init_sys (broken 0 two_store)) =
      (Inl unavailable,
       (init_sys (broken 0 two_store))\<lparr>trace := [(''P2'', Remove acme [''b''])]\<rparr>)"
    using a t by (simp add: two_registry_def init_sys_def)
  let ?w1 = "snd (a_remove (stub 0) acme [''b''] two_store)"
  let ?w2 = "snd (a_remove (stub 1) acme [''b''] ?w1)"
  let ?U = "\<lambda>i::nat. if i = 0 then two_store else if i = 1 then ?w1 else ?w2"
  have b0: "fst (a_remove (stub 0) acme [''b''] two_store) = Inr ()"
    and b1: "fst (a_remove (stub 1) acme [''b''] ?w1) = Inr ()"
    by (simp_all add: stub_simps)
  have hyu: "?U 0 = world (init_sys two_store) \<and>
    (\<forall>i<length two_registry.
        a_remove (snd (two_registry ! i)) acme [''b''] (?U i) = (Inr (), ?U (Suc i)))"
    using b0 b1 by (simp add: init_sys_def two_registry_def All_less_Suc prod_eq_iff)
  note u = remove_broadcast[where s = "init_sys two_store" and ws = acme and names = "[''b'']"
      and ads = two_registry and U = ?U, THEN conjunct2, THEN conjunct1, THEN mp, OF hyu]
  have r: "remove two_registry acme [''b''] (init_sys two_store) =
      (Inr (),
       (init_sys two_store)
         \<lparr>trace := [(''P2'', Remove acme [''b'']), (''P1'', Remove acme [''b''])],
          world := ?w2\<rparr>)"
    using u by (simp add: two_registry_def init_sys_def)
  have e0: "map fst (bk_blobs (?w2 0)) = [''c'']" and e1: "map fst (bk_blobs (?w2 1)) = [''a'']"
    by (simp_all add: stub_simps)
  have p2: "fst (a_remove (stub 0) acme [''b''] two_store) = Inr () \<and>
    fst (a_remove (stub 1) acme [''b''] (snd (a_remove (stub 0) acme [''b''] two_store))) =
      Inr () \<and>
    remove two_registry acme [''b''] (init_sys two_store) =
      (Inr (),
       (init_sys two_store)
         \<lparr>trace := [(''P2'', Remove acme [''b'']), (''P1'', Remove acme [''b''])],
          world := snd (a_remove (stub 1) acme [''b'']
            (snd (a_remove (stub 0) acme [''b''] two_store)))\<rparr>) \<and>
    map fst (bk_blobs (world (snd (remove two_registry acme [''b''] (init_sys two_store))) 0)) =
      [''c''] \<and>
    map fst (bk_blobs (world (snd (remove two_registry acme [''b''] (init_sys two_store))) 1)) =
      [''a'']"
    using b0 b1 e0 e1 unfolding r by simp
  have g: "remove two_registry acme [''b''] (init_sys two_store) = (Inr (), snd (remove two_registry acme [''b''] (init_sys two_store)))"
    unfolding r by simp
  from remove_broadcast[where s = "init_sys two_store" and ws = acme and names = "[''b'']" and ads = two_registry,
      THEN conjunct1, THEN mp, OF g]
  obtain j W where jw: "j \<le> length two_registry" "W 0 = world (init_sys two_store)"
    "snd (remove two_registry acme [''b''] (init_sys two_store)) =
      (init_sys two_store)
        \<lparr>trace := trace (init_sys two_store) @
           map (\<lambda>p. (fst p, Remove acme [''b''])) (take j two_registry), world := W j\<rparr>"
    "j = length two_registry"
    by auto
  have p3: "\<exists>j W. j \<le> length two_registry \<and> W 0 = two_store \<and>
      snd (remove two_registry acme [''b''] (init_sys two_store)) =
        (init_sys two_store)
          \<lparr>trace := map (\<lambda>p. (fst p, Remove acme [''b''])) (take j two_registry),
           world := W j\<rparr> \<and>
      j = length two_registry"
    using jw by (intro exI[of _ j] exI[of _ W]) (simp add: init_sys_def)
  show ?thesis
    by (rule conjI[OF p1 conjI[OF p2 p3]])
qed

subsection \<open>Closing the aggregator\<close>

lemma close_skip:
  "W 0 = world s \<Longrightarrow>
   \<forall>i<length pre. a_close (snd (pre ! i)) (W i) = (Inr (), W (Suc i)) \<Longrightarrow>
   close (pre @ post) s =
     close post
       (s\<lparr>trace := trace s @ map (\<lambda>p. (fst p, Close)) pre, world := W (length pre)\<rparr>)"
proof (induction pre arbitrary: s W)
  case Nil
  then show ?case by simp
next
  case (Cons ka pre)
  obtain k a where ka: "ka = (k, a)" by (cases ka)
  from Cons.prems(2) have h: "a_close a (W 0) = (Inr (), W 1)"
    and t: "\<forall>i<length pre. a_close (snd (pre ! i)) (W (Suc i)) = (Inr (), W (Suc (Suc i)))"
    by (simp_all add: All_less_Suc2 ka)
  let ?s1 = "s\<lparr>trace := trace s @ [(k, Close)], world := W 1\<rparr>"
  have "close ((ka # pre) @ post) s = close (pre @ post) ?s1"
    using h Cons.prems(1) by (simp add: ka invoke_def)
  also have "\<dots> = close post
       (?s1\<lparr>trace := trace ?s1 @ map (\<lambda>p. (fst p, Close)) pre, world := W (Suc (length pre))\<rparr>)"
    using Cons.IH[of "\<lambda>i. W (Suc i)" ?s1] t by simp
  finally show ?case by (simp add: ka)
qed

lemma close_threaded:
  "close ads s = (r, s') \<Longrightarrow>
   \<exists>j W. j \<le> length ads \<and> W 0 = world s \<and>
     s' = s\<lparr>trace := trace s @ map (\<lambda>p. (fst p, Close)) (take j ads), world := W j\<rparr> \<and>
     (case r of
        Inr u \<Rightarrow>
          j = length ads \<and>
          (\<forall>i<j. a_close (snd (ads ! i)) (W i) = (Inr (), W (Suc i)))
      | Inl e \<Rightarrow>
          0 < j \<and>
          (\<forall>i<j - 1. a_close (snd (ads ! i)) (W i) = (Inr (), W (Suc i))) \<and>
          a_close (snd (ads ! (j - 1))) (W (j - 1)) = (Inl e, W j))"
proof (induction ads arbitrary: s)
  case Nil
  then show ?case
    by (intro exI[of _ 0] exI[of _ "\<lambda>i. world s"]) auto
next
  case (Cons ka rest)
  obtain k a where ka: "ka = (k, a)" by (cases ka)
  obtain r1 w1 where f1: "a_close a (world s) = (r1, w1)"
    by (cases "a_close a (world s)")
  let ?s1 = "s\<lparr>trace := trace s @ [(k, Close)], world := w1\<rparr>"
  let ?W1 = "\<lambda>i. case i of 0 \<Rightarrow> world s | Suc i' \<Rightarrow> w1"
  have inv: "invoke k (Close) (a_close a) s = (r1, ?s1)"
    using f1 by (simp add: invoke_def)
  show ?case
  proof (cases r1)
    case (Inl e)
    with Cons.prems ka inv have "r = Inl e" "s' = ?s1" by auto
    then show ?thesis using f1 Inl ka
      by (intro exI[of _ 1] exI[of _ ?W1]) auto
  next
    case (Inr u)
    with Cons.prems ka inv have "close rest ?s1 = (r, s')" by auto
    from Cons.IH[OF this] obtain j W where j: "j \<le> length rest" "W 0 = w1"
      "s' = ?s1\<lparr>trace := trace ?s1 @ map (\<lambda>p. (fst p, Close)) (take j rest), world := W j\<rparr>"
      "(case r of
        Inr u \<Rightarrow>
          j = length rest \<and>
          (\<forall>i<j. a_close (snd (rest ! i)) (W i) = (Inr (), W (Suc i)))
      | Inl e \<Rightarrow>
          0 < j \<and>
          (\<forall>i<j - 1. a_close (snd (rest ! i)) (W i) = (Inr (), W (Suc i))) \<and>
          a_close (snd (rest ! (j - 1))) (W (j - 1)) = (Inl e, W j))"
      by auto
    let ?W = "\<lambda>i. case i of 0 \<Rightarrow> world s | Suc i' \<Rightarrow> W i'"
    have hd: "a_close (snd ka) (?W 0) = (Inr (), ?W (Suc 0))"
      using f1 Inr ka j(2) by simp
    have st: "s' = s\<lparr>trace := trace s @ map (\<lambda>p. (fst p, Close)) (take (Suc j) (ka # rest)),
        world := ?W (Suc j)\<rparr>"
      using j(3) ka by simp
    show ?thesis
    proof (cases r)
      case (Inl e)
      with j(4) have p: "0 < j"
        "\<forall>i<j - 1. a_close (snd (rest ! i)) (W i) = (Inr (), W (Suc i))"
        "a_close (snd (rest ! (j - 1))) (W (j - 1)) = (Inl e, W j)" by auto
      from p(1) obtain j0 where j0: "j = Suc j0" by (cases j) auto
      show ?thesis
        apply (intro exI[of _ "Suc j"] exI[of _ ?W])
        using j(1) st hd p(2,3) Inl unfolding j0
        apply (simp add: All_less_Suc2)
        done
    next
      case (Inr u')
      with j(4) have p: "j = length rest"
        "\<forall>i<j. a_close (snd (rest ! i)) (W i) = (Inr (), W (Suc i))" by auto
      show ?thesis
        apply (intro exI[of _ "Suc j"] exI[of _ ?W])
        using j(1) st hd p Inr
        apply (simp add: All_less_Suc2)
        done
    qed
  qed
qed

text \<open>
  C10, as amended. \<^verbatim>\<open>close\<close> calls \<^verbatim>\<open>close\<close> on
  the backends in registry order, the primary first, each call in the world the call before it
  left, and makes no other backend call. Whatever it returns, it has called the first
  \<open>j\<close> registry entries and no other: the state returned differs from the state of
  the call by the \<open>Close\<close> calls of these entries in the trace and by the world,
  which is the one the last call left. When it returns normally, every backend was closed and
  every call returned. When it throws, the calls before the last returned and the last call
  threw the error. Conversely, when every backend's \<^verbatim>\<open>close\<close> returns,
  each in the world the one before it left, \<^verbatim>\<open>close\<close> returns after
  closing all of them; and when the entries before some entry return and that entry throws,
  \<^verbatim>\<open>close\<close> throws that error after that call, and the backends after it
  are not closed.
\<close>

theorem close_every_provider:
  "(close ads s = (r, s') \<longrightarrow>
      (\<exists>j W. j \<le> length ads \<and> W 0 = world s \<and>
         s' = s\<lparr>trace := trace s @ map (\<lambda>p. (fst p, Close)) (take j ads), world := W j\<rparr> \<and>
         (case r of
            Inr u \<Rightarrow>
              j = length ads \<and>
              (\<forall>i<j. a_close (snd (ads ! i)) (W i) = (Inr (), W (Suc i)))
          | Inl e \<Rightarrow>
              0 < j \<and>
              (\<forall>i<j - 1. a_close (snd (ads ! i)) (W i) = (Inr (), W (Suc i))) \<and>
              a_close (snd (ads ! (j - 1))) (W (j - 1)) = (Inl e, W j)))) \<and>
   (U 0 = world s \<and>
    (\<forall>i<length ads. a_close (snd (ads ! i)) (U i) = (Inr (), U (Suc i))) \<longrightarrow>
      close ads s =
        (Inr (),
         s\<lparr>trace := trace s @ map (\<lambda>p. (fst p, Close)) ads, world := U (length ads)\<rparr>)) \<and>
   (V 0 = world s \<and>
    (\<forall>i<length pre. a_close (snd (pre ! i)) (V i) = (Inr (), V (Suc i))) \<and>
    a_close q (V (length pre)) = (Inl x, v') \<longrightarrow>
      close (pre @ (l, q) # post) s =
        (Inl x,
         s\<lparr>trace := trace s @ map (\<lambda>p. (fst p, Close)) pre @ [(l, Close)], world := v'\<rparr>))"
proof (intro conjI impI)
  assume "close ads s = (r, s')"
  then show "\<exists>j W. j \<le> length ads \<and> W 0 = world s \<and>
         s' = s\<lparr>trace := trace s @ map (\<lambda>p. (fst p, Close)) (take j ads), world := W j\<rparr> \<and>
         (case r of
            Inr u \<Rightarrow>
              j = length ads \<and>
              (\<forall>i<j. a_close (snd (ads ! i)) (W i) = (Inr (), W (Suc i)))
          | Inl e \<Rightarrow>
              0 < j \<and>
              (\<forall>i<j - 1. a_close (snd (ads ! i)) (W i) = (Inr (), W (Suc i))) \<and>
              a_close (snd (ads ! (j - 1))) (W (j - 1)) = (Inl e, W j))"
    by (rule close_threaded)
next
  assume "U 0 = world s \<and>
    (\<forall>i<length ads. a_close (snd (ads ! i)) (U i) = (Inr (), U (Suc i)))"
  then have u0: "U 0 = world s"
    and thr: "\<forall>i<length ads. a_close (snd (ads ! i)) (U i) = (Inr (), U (Suc i))"
    by blast+
  show "close ads s =
        (Inr (),
         s\<lparr>trace := trace s @ map (\<lambda>p. (fst p, Close)) ads, world := U (length ads)\<rparr>)"
    using close_skip[OF u0 thr, of "[]"] by simp
next
  assume "V 0 = world s \<and>
    (\<forall>i<length pre. a_close (snd (pre ! i)) (V i) = (Inr (), V (Suc i))) \<and>
    a_close q (V (length pre)) = (Inl x, v')"
  then have v0: "V 0 = world s"
    and thr: "\<forall>i<length pre. a_close (snd (pre ! i)) (V i) = (Inr (), V (Suc i))"
    and thrown: "a_close q (V (length pre)) = (Inl x, v')"
    by blast+
  show "close (pre @ (l, q) # post) s =
        (Inl x,
         s\<lparr>trace := trace s @ map (\<lambda>p. (fst p, Close)) pre @ [(l, Close)], world := v'\<rparr>)"
    unfolding close_skip[OF v0 thr] using thrown by (simp add: invoke_def)
qed

text \<open>
  Closing the registry of the two backends calls \<open>P2\<close>, then \<open>P1\<close>.
  With the fallback \<open>P1\<close> out of order, \<open>P2\<close> is closed, then the
  \<^verbatim>\<open>close\<close> of \<open>P1\<close> throws and so does
  \<^verbatim>\<open>close\<close>.
\<close>

theorem close_every_provider_witness:
  "(a_close (stub 0) two_store = (Inr (), two_store) \<and>
    a_close (stub 1) two_store = (Inr (), two_store) \<and>
    close two_registry (init_sys two_store) =
      (Inr (), (init_sys two_store)\<lparr>trace := [(''P2'', Close), (''P1'', Close)]\<rparr>)) \<and>
   (a_close (stub 0) (broken 1 two_store) = (Inr (), broken 1 two_store) \<and>
    a_close (stub 1) (broken 1 two_store) = (Inl unavailable, broken 1 two_store) \<and>
    close two_registry (init_sys (broken 1 two_store)) =
      (Inl unavailable,
       (init_sys (broken 1 two_store))\<lparr>trace := [(''P2'', Close), (''P1'', Close)]\<rparr>)) \<and>
   (\<exists>j W. j \<le> length two_registry \<and> W 0 = two_store \<and>
      snd (close two_registry (init_sys two_store)) =
        (init_sys two_store)
          \<lparr>trace := map (\<lambda>p. (fst p, Close)) (take j two_registry),
           world := W j\<rparr> \<and>
      j = length two_registry)"
proof -
  have a0: "a_close (stub 0) two_store = (Inr (), two_store)"
    and a1: "a_close (stub 1) two_store = (Inr (), two_store)"
    by (simp_all add: stub_simps)
  have hyu: "(\<lambda>i. two_store) 0 = world (init_sys two_store) \<and>
    (\<forall>i<length two_registry.
        a_close (snd (two_registry ! i)) ((\<lambda>i. two_store) i) = (Inr (), (\<lambda>i. two_store) (Suc i)))"
    using a0 a1 by (simp add: init_sys_def two_registry_def All_less_Suc)
  note u = close_every_provider[where s = "init_sys two_store" and ads = two_registry
      and U = "\<lambda>i. two_store", THEN conjunct2, THEN conjunct1, THEN mp, OF hyu]
  have r: "close two_registry (init_sys two_store) =
      (Inr (), (init_sys two_store)\<lparr>trace := [(''P2'', Close), (''P1'', Close)]\<rparr>)"
    using u by (simp add: two_registry_def init_sys_def)
  from a0 a1 r have p1: "a_close (stub 0) two_store = (Inr (), two_store) \<and>
    a_close (stub 1) two_store = (Inr (), two_store) \<and>
    close two_registry (init_sys two_store) =
      (Inr (), (init_sys two_store)\<lparr>trace := [(''P2'', Close), (''P1'', Close)]\<rparr>)"
    by blast
  have b0: "a_close (stub 0) (broken 1 two_store) = (Inr (), broken 1 two_store)"
    and b1: "a_close (stub 1) (broken 1 two_store) = (Inl unavailable, broken 1 two_store)"
    by (simp_all add: stub_simps)
  have hyv: "(\<lambda>i. broken 1 two_store) 0 = world (init_sys (broken 1 two_store)) \<and>
    (\<forall>i<length [(''P2'', stub 0)].
        a_close (snd ([(''P2'', stub 0)] ! i)) ((\<lambda>i. broken 1 two_store) i) =
          (Inr (), (\<lambda>i. broken 1 two_store) (Suc i))) \<and>
    a_close (stub 1) ((\<lambda>i. broken 1 two_store) (length [(''P2'', stub (0::nat))])) =
      (Inl unavailable, broken 1 two_store)"
    using b0 b1 by (simp add: init_sys_def)
  note t = close_every_provider[where s = "init_sys (broken 1 two_store)"
      and V = "\<lambda>i. broken 1 two_store" and pre = "[(''P2'', stub 0)]" and q = "stub 1"
      and x = unavailable and v' = "broken 1 two_store" and l = "''P1''" and post = "[]",
      THEN conjunct2, THEN conjunct2, THEN mp, OF hyv]
  have p2: "a_close (stub 0) (broken 1 two_store) = (Inr (), broken 1 two_store) \<and>
    a_close (stub 1) (broken 1 two_store) = (Inl unavailable, broken 1 two_store) \<and>
    close two_registry (init_sys (broken 1 two_store)) =
      (Inl unavailable,
       (init_sys (broken 1 two_store))\<lparr>trace := [(''P2'', Close), (''P1'', Close)]\<rparr>)"
    using b0 b1 t by (simp add: two_registry_def init_sys_def)
  have g: "close two_registry (init_sys two_store) = (Inr (), snd (close two_registry (init_sys two_store)))"
    unfolding r by simp
  from close_every_provider[where s = "init_sys two_store" and ads = two_registry,
      THEN conjunct1, THEN mp, OF g]
  obtain j W where jw: "j \<le> length two_registry" "W 0 = world (init_sys two_store)"
    "snd (close two_registry (init_sys two_store)) =
      (init_sys two_store)
        \<lparr>trace := trace (init_sys two_store) @
           map (\<lambda>p. (fst p, Close)) (take j two_registry), world := W j\<rparr>"
    "j = length two_registry"
    by auto
  have p3: "\<exists>j W. j \<le> length two_registry \<and> W 0 = two_store \<and>
      snd (close two_registry (init_sys two_store)) =
        (init_sys two_store)
          \<lparr>trace := map (\<lambda>p. (fst p, Close)) (take j two_registry),
           world := W j\<rparr> \<and>
      j = length two_registry"
    using jw by (intro exI[of _ j] exI[of _ W]) (simp add: init_sys_def)
  show ?thesis
    by (rule conjI[OF p1 conjI[OF p2 p3]])
qed

text \<open>
  C10 as stated fails when a \<^verbatim>\<open>close\<close> throws: with the primary
  \<open>P2\<close> out of order, \<^verbatim>\<open>close\<close> throws after the one call to
  \<open>P2\<close>, and the fallback \<open>P1\<close> is not closed.
\<close>

theorem close_stops_at_throw_counterexample:
  "close two_registry (init_sys (broken 0 two_store)) =
     (Inl unavailable, (init_sys (broken 0 two_store))\<lparr>trace := [(''P2'', Close)]\<rparr>) \<and>
   (''P1'', Close) \<notin> set (trace (snd (close two_registry (init_sys (broken 0 two_store)))))"
  by (simp add: two_registry_def invoke_def stub_simps)

subsection \<open>Best-effort initialisation\<close>

lemma make_step_exact:
  "((\<exists>w'. a_exists (snd (k, a)) ws (world s) = (Inr True, w') \<and>
           make_step (k, a) ws s = s\<lparr>trace := trace s @ [(fst (k, a), Exists ws)], world := w'\<rparr>) \<or>
        (\<exists>e w'. a_exists (snd (k, a)) ws (world s) = (Inl e, w') \<and>
           make_step (k, a) ws s = s\<lparr>trace := trace s @ [(fst (k, a), Exists ws)], world := w',
                 ctx_errors := ctx_errors s @ [(''failed to init adapter'', fst (k, a), ws, e)],
                 analytics := analytics s @ [e]\<rparr>) \<or>
        (\<exists>w1 w'. a_exists (snd (k, a)) ws (world s) = (Inr False, w1) \<and>
           a_make (snd (k, a)) ws w1 = (Inr (), w') \<and>
           make_step (k, a) ws s = s\<lparr>trace := trace s @ [(fst (k, a), Exists ws), (fst (k, a), Make ws)], world := w'\<rparr>) \<or>
        (\<exists>e w1 w'. a_exists (snd (k, a)) ws (world s) = (Inr False, w1) \<and>
           a_make (snd (k, a)) ws w1 = (Inl e, w') \<and>
           make_step (k, a) ws s = s\<lparr>trace := trace s @ [(fst (k, a), Exists ws), (fst (k, a), Make ws)], world := w',
                 ctx_errors := ctx_errors s @ [(''failed to init adapter'', fst (k, a), ws, e)],
                 analytics := analytics s @ [e]\<rparr>))"
proof -
  obtain r1 w1 where e1: "a_exists a ws (world s) = (r1, w1)"
    by (cases "a_exists a ws (world s)")
  show ?thesis
  proof (cases r1)
    case (Inl e)
    with e1 show ?thesis
      by (simp add: make_step_def make_try_def invoke_def)
  next
    case (Inr ex)
    show ?thesis
    proof (cases ex)
      case True
      with e1 Inr show ?thesis
        by (simp add: make_step_def make_try_def invoke_def)
    next
      case False
      obtain r2 w2 where e2: "a_make a ws w1 = (r2, w2)" by (cases "a_make a ws w1")
      show ?thesis
      proof (cases r2)
        case (Inl e)
        with e1 e2 Inr False show ?thesis
          by (simp add: make_step_def make_try_def invoke_def)
      next
        case (Inr u)
        with e1 e2 \<open>r1 = Inr ex\<close> False show ?thesis
          by (simp add: make_step_def make_try_def invoke_def)
      qed
    qed
  qed
qed

text \<open>
  C5. \<^verbatim>\<open>make\<close> returns normally on every registry, workspace and state.
  It goes through the backends in registry order, from the state of the call to the state it
  returns, and the state after a backend is obtained from the state before it in one of four
  ways, decided by what the backend does in the world of the state before it. Its
  \<^verbatim>\<open>exists\<close> returned true: only \<^verbatim>\<open>exists\<close> was
  called. Its \<^verbatim>\<open>exists\<close> threw: nothing more was called on it and the
  error was reported. Its \<^verbatim>\<open>exists\<close> returned false and its
  \<^verbatim>\<open>make\<close>, called in the world \<^verbatim>\<open>exists\<close> left,
  returned: both were called. Its \<^verbatim>\<open>exists\<close> returned false and its
  \<^verbatim>\<open>make\<close> threw: both were called and the error was reported. A
  reported error is passed to \<^verbatim>\<open>ctx.error\<close> with the backend's name and
  the workspace, and to \<^verbatim>\<open>Analytics.handleError\<close>; nothing else is
  reported, and the loop goes on with the next backend in the world the last call left.
\<close>

theorem make_never_raises:
  "\<exists>S. S 0 = s \<and> make ads ws s = (Inr (), S (length ads)) \<and>
     (\<forall>i<length ads.
        ((\<exists>w'. a_exists (snd (ads ! i)) ws (world (S i)) = (Inr True, w') \<and>
           S (Suc i) = (S i)\<lparr>trace := trace (S i) @ [(fst (ads ! i), Exists ws)], world := w'\<rparr>) \<or>
        (\<exists>e w'. a_exists (snd (ads ! i)) ws (world (S i)) = (Inl e, w') \<and>
           S (Suc i) = (S i)\<lparr>trace := trace (S i) @ [(fst (ads ! i), Exists ws)], world := w',
                 ctx_errors := ctx_errors (S i) @ [(''failed to init adapter'', fst (ads ! i), ws, e)],
                 analytics := analytics (S i) @ [e]\<rparr>) \<or>
        (\<exists>w1 w'. a_exists (snd (ads ! i)) ws (world (S i)) = (Inr False, w1) \<and>
           a_make (snd (ads ! i)) ws w1 = (Inr (), w') \<and>
           S (Suc i) = (S i)\<lparr>trace := trace (S i) @ [(fst (ads ! i), Exists ws), (fst (ads ! i), Make ws)], world := w'\<rparr>) \<or>
        (\<exists>e w1 w'. a_exists (snd (ads ! i)) ws (world (S i)) = (Inr False, w1) \<and>
           a_make (snd (ads ! i)) ws w1 = (Inl e, w') \<and>
           S (Suc i) = (S i)\<lparr>trace := trace (S i) @ [(fst (ads ! i), Exists ws), (fst (ads ! i), Make ws)], world := w',
                 ctx_errors := ctx_errors (S i) @ [(''failed to init adapter'', fst (ads ! i), ws, e)],
                 analytics := analytics (S i) @ [e]\<rparr>)))"
proof (induction ads arbitrary: s)
  case Nil
  show ?case by (intro exI[of _ "\<lambda>i. s"]) simp
next
  case (Cons ka rest)
  obtain k a where ka: "ka = (k, a)" by (cases ka)
  let ?s1 = "make_step ka ws s"
  from Cons.IH[of ?s1] obtain S where S: "S 0 = ?s1"
    "make rest ws ?s1 = (Inr (), S (length rest))"
    "\<forall>i<length rest.
        ((\<exists>w'. a_exists (snd (rest ! i)) ws (world (S i)) = (Inr True, w') \<and>
           S (Suc i) = (S i)\<lparr>trace := trace (S i) @ [(fst (rest ! i), Exists ws)], world := w'\<rparr>) \<or>
        (\<exists>e w'. a_exists (snd (rest ! i)) ws (world (S i)) = (Inl e, w') \<and>
           S (Suc i) = (S i)\<lparr>trace := trace (S i) @ [(fst (rest ! i), Exists ws)], world := w',
                 ctx_errors := ctx_errors (S i) @ [(''failed to init adapter'', fst (rest ! i), ws, e)],
                 analytics := analytics (S i) @ [e]\<rparr>) \<or>
        (\<exists>w1 w'. a_exists (snd (rest ! i)) ws (world (S i)) = (Inr False, w1) \<and>
           a_make (snd (rest ! i)) ws w1 = (Inr (), w') \<and>
           S (Suc i) = (S i)\<lparr>trace := trace (S i) @ [(fst (rest ! i), Exists ws), (fst (rest ! i), Make ws)], world := w'\<rparr>) \<or>
        (\<exists>e w1 w'. a_exists (snd (rest ! i)) ws (world (S i)) = (Inr False, w1) \<and>
           a_make (snd (rest ! i)) ws w1 = (Inl e, w') \<and>
           S (Suc i) = (S i)\<lparr>trace := trace (S i) @ [(fst (rest ! i), Exists ws), (fst (rest ! i), Make ws)], world := w',
                 ctx_errors := ctx_errors (S i) @ [(''failed to init adapter'', fst (rest ! i), ws, e)],
                 analytics := analytics (S i) @ [e]\<rparr>))"
    by blast
  let ?S = "\<lambda>i. case i of 0 \<Rightarrow> s | Suc i' \<Rightarrow> S i'"
  have hd: "((\<exists>w'. a_exists (snd ka) ws (world (?S 0)) = (Inr True, w') \<and>
           ?S (Suc 0) = (?S 0)\<lparr>trace := trace (?S 0) @ [(fst ka, Exists ws)], world := w'\<rparr>) \<or>
        (\<exists>e w'. a_exists (snd ka) ws (world (?S 0)) = (Inl e, w') \<and>
           ?S (Suc 0) = (?S 0)\<lparr>trace := trace (?S 0) @ [(fst ka, Exists ws)], world := w',
                 ctx_errors := ctx_errors (?S 0) @ [(''failed to init adapter'', fst ka, ws, e)],
                 analytics := analytics (?S 0) @ [e]\<rparr>) \<or>
        (\<exists>w1 w'. a_exists (snd ka) ws (world (?S 0)) = (Inr False, w1) \<and>
           a_make (snd ka) ws w1 = (Inr (), w') \<and>
           ?S (Suc 0) = (?S 0)\<lparr>trace := trace (?S 0) @ [(fst ka, Exists ws), (fst ka, Make ws)], world := w'\<rparr>) \<or>
        (\<exists>e w1 w'. a_exists (snd ka) ws (world (?S 0)) = (Inr False, w1) \<and>
           a_make (snd ka) ws w1 = (Inl e, w') \<and>
           ?S (Suc 0) = (?S 0)\<lparr>trace := trace (?S 0) @ [(fst ka, Exists ws), (fst ka, Make ws)], world := w',
                 ctx_errors := ctx_errors (?S 0) @ [(''failed to init adapter'', fst ka, ws, e)],
                 analytics := analytics (?S 0) @ [e]\<rparr>))"
    using make_step_exact[of k a ws s] by (simp add: S(1) ka)
  show ?case
    apply (rule exI[of _ ?S])
    apply (intro conjI)
      apply simp
     apply (simp add: S(2))
    apply (subst All_less_Suc2[of "length rest", folded length_Cons[of ka rest]])
    apply (rule conjI)
     apply (use hd in simp)
    apply (use S(3) in simp)
    done
qed

text \<open>
  With the primary out of order and \<open>P3\<close> not yet created: the primary's error is
  reported, \<open>P3\<close> is created, \<open>P1\<close> exists already, and
  \<^verbatim>\<open>make\<close> returns.
\<close>

theorem make_never_raises_witness:
  "make three_registry acme (init_sys (broken 0 (vacant 2 two_store))) =
     (Inr (),
      (init_sys (broken 0 (vacant 2 two_store)))
        \<lparr>trace := [(''P2'', Exists acme), (''P3'', Exists acme), (''P3'', Make acme),
                   (''P1'', Exists acme)],
         ctx_errors := [(''failed to init adapter'', ''P2'', acme, unavailable)],
         analytics := [unavailable],
         world := (broken 0 (vacant 2 two_store))(2 := two_store 2)\<rparr>) \<and>
   fst (make three_registry acme (init_sys (broken 0 two_store))) = Inr ()"
proof -
  have a: "make three_registry acme (init_sys (broken 0 (vacant 2 two_store))) =
     (Inr (),
      (init_sys (broken 0 (vacant 2 two_store)))
        \<lparr>trace := [(''P2'', Exists acme), (''P3'', Exists acme), (''P3'', Make acme),
                   (''P1'', Exists acme)],
         ctx_errors := [(''failed to init adapter'', ''P2'', acme, unavailable)],
         analytics := [unavailable],
         world := (broken 0 (vacant 2 two_store))(2 := two_store 2)\<rparr>)"
    by (simp add: three_registry_def make_step_def make_try_def invoke_def stub_simps fun_upd_twist)
  have b: "fst (make three_registry acme (init_sys (broken 0 two_store))) = Inr ()"
    using make_never_raises[of "init_sys (broken 0 two_store)" three_registry acme]
    by auto
  from a b show ?thesis by blast
qed

subsection \<open>Deleting the storage of a workspace\<close>

text \<open>
  C7. \<^verbatim>\<open>delete\<close> visits the backends in registry order, from the state
  of the call on. A backend it is done with either reported no existence in the world of the
  state before it, and only \<^verbatim>\<open>exists\<close> was called on it, or reported
  existence and its \<^verbatim>\<open>delete\<close>, called in the world
  \<^verbatim>\<open>exists\<close> left, returned; the state after it is the state before it
  with these calls in the trace and the world the last of them left. When
  \<^verbatim>\<open>delete\<close> returns, it is done with every backend and returns the
  state after the last. When it throws, the error is the one thrown by the
  \<^verbatim>\<open>exists\<close> of the next backend, or by its
  \<^verbatim>\<open>delete\<close> after it reported existence, and the state returned is the
  one that call left: no later backend is visited.
\<close>

theorem delete_existing_propagates:
  "delete ads ws s = (r, s') \<Longrightarrow>
   \<exists>j S. j \<le> length ads \<and> S 0 = s \<and>
     (\<forall>i<j.
        ((\<exists>w'. a_exists (snd (ads ! i)) ws (world (S i)) = (Inr False, w') \<and>
           S (Suc i) = (S i)\<lparr>trace := trace (S i) @ [(fst (ads ! i), Exists ws)], world := w'\<rparr>) \<or>
        (\<exists>w1 w'. a_exists (snd (ads ! i)) ws (world (S i)) = (Inr True, w1) \<and>
           a_delete (snd (ads ! i)) ws w1 = (Inr (), w') \<and>
           S (Suc i) = (S i)\<lparr>trace := trace (S i) @ [(fst (ads ! i), Exists ws), (fst (ads ! i), Delete ws)], world := w'\<rparr>))) \<and>
     (case r of
        Inr u \<Rightarrow> j = length ads \<and> s' = S j
      | Inl e \<Rightarrow>
          j < length ads \<and>
           ((\<exists>w'. a_exists (snd (ads ! j)) ws (world (S j)) = (Inl e, w') \<and>
               s' = (S j)\<lparr>trace := trace (S j) @ [(fst (ads ! j), Exists ws)], world := w'\<rparr>) \<or>
            (\<exists>w1 w'. a_exists (snd (ads ! j)) ws (world (S j)) = (Inr True, w1) \<and>
               a_delete (snd (ads ! j)) ws w1 = (Inl e, w') \<and>
               s' = (S j)\<lparr>trace := trace (S j) @ [(fst (ads ! j), Exists ws), (fst (ads ! j), Delete ws)],
                     world := w'\<rparr>)))"
proof (induction ads arbitrary: s)
  case Nil
  then show ?case by (intro exI[of _ 0] exI[of _ "\<lambda>i. s"]) auto
next
  case (Cons ka rest)
  obtain k a where ka: "ka = (k, a)" by (cases ka)
  obtain r1 w1 where e1: "a_exists a ws (world s) = (r1, w1)"
    by (cases "a_exists a ws (world s)")
  let ?s1 = "s\<lparr>trace := trace s @ [(k, Exists ws)], world := w1\<rparr>"
  have i1: "invoke k (Exists ws) (a_exists a ws) s = (r1, ?s1)"
    using e1 by (simp add: invoke_def)
  let ?D = "\<lambda>p x y. ((\<exists>w'. a_exists (snd p) ws (world x) = (Inr False, w') \<and>
           y = x\<lparr>trace := trace x @ [(fst p, Exists ws)], world := w'\<rparr>) \<or>
        (\<exists>w1 w'. a_exists (snd p) ws (world x) = (Inr True, w1) \<and>
           a_delete (snd p) ws w1 = (Inr (), w') \<and>
           y = x\<lparr>trace := trace x @ [(fst p, Exists ws), (fst p, Delete ws)], world := w'\<rparr>))"
  let ?F = "\<lambda>e p x y. ((\<exists>w'. a_exists (snd p) ws (world x) = (Inl e, w') \<and>
               y = x\<lparr>trace := trace x @ [(fst p, Exists ws)], world := w'\<rparr>) \<or>
            (\<exists>w1 w'. a_exists (snd p) ws (world x) = (Inr True, w1) \<and>
               a_delete (snd p) ws w1 = (Inl e, w') \<and>
               y = x\<lparr>trace := trace x @ [(fst p, Exists ws), (fst p, Delete ws)],
                     world := w'\<rparr>))"
  let ?Q = "\<lambda>ads j S. (case r of
        Inr u \<Rightarrow> j = length ads \<and> s' = S j
      | Inl e \<Rightarrow> j < length ads \<and> ?F e (ads ! j) (S j) s')"
  have tail: "\<exists>j S. j \<le> length (ka # rest) \<and> S 0 = s \<and>
       (\<forall>i<j. ?D ((ka # rest) ! i) (S i) (S (Suc i))) \<and> ?Q (ka # rest) j S"
    if run: "delete rest ws s2 = (r, s')" and D: "?D ka s s2" for s2
  proof -
    from Cons.IH[OF run] obtain j S where ih: "j \<le> length rest" "S 0 = s2"
      "\<forall>i<j. ?D (rest ! i) (S i) (S (Suc i))" "?Q rest j S"
      by blast
    let ?S = "\<lambda>i. case i of 0 \<Rightarrow> s | Suc i' \<Rightarrow> S i'"
    have a: "\<forall>i<Suc j. ?D ((ka # rest) ! i) (?S i) (?S (Suc i))"
      apply (subst All_less_Suc2)
      apply (rule conjI)
       apply (use D ih(2) in simp)
      apply (use ih(3) in simp)
      done
    have b: "?Q (ka # rest) (Suc j) ?S"
      using ih(4) by (cases r) simp_all
    show ?thesis
      apply (intro exI[of _ "Suc j"] exI[of _ ?S] conjI)
         apply (use ih(1) in simp)
        apply simp
       apply (rule a)
      apply (rule b)
      done
  qed
  show ?case
  proof (cases r1)
    case (Inl e)
    with Cons.prems ka i1 have "r = Inl e" "s' = ?s1" by auto
    then show ?thesis using e1 Inl ka
      by (intro exI[of _ 0] exI[of _ "\<lambda>i. s"]) simp
  next
    case (Inr ex)
    show ?thesis
    proof (cases ex)
      case False
      with Cons.prems ka i1 Inr have "delete rest ws ?s1 = (r, s')" by auto
      moreover have "?D ka s ?s1" using e1 Inr False ka by simp
      ultimately show ?thesis by (rule tail)
    next
      case True
      obtain r2 w2 where e2: "a_delete a ws w1 = (r2, w2)" by (cases "a_delete a ws w1")
      let ?s2 = "s\<lparr>trace := trace s @ [(k, Exists ws), (k, Delete ws)], world := w2\<rparr>"
      have i2: "invoke k (Delete ws) (a_delete a ws) ?s1 = (r2, ?s2)"
        using e2 by (simp add: invoke_def)
      show ?thesis
      proof (cases r2)
        case (Inl e)
        with Cons.prems ka i1 i2 True \<open>r1 = Inr ex\<close> have "r = Inl e" "s' = ?s2" by auto
        then show ?thesis using e1 e2 Inl ka True \<open>r1 = Inr ex\<close>
          by (intro exI[of _ 0] exI[of _ "\<lambda>i. s"]) simp
      next
        case (Inr u)
        with Cons.prems ka i1 i2 True \<open>r1 = Inr ex\<close> have "delete rest ws ?s2 = (r, s')" by auto
        moreover have "?D ka s ?s2"
          using e1 e2 Inr True \<open>r1 = Inr ex\<close> ka by simp
        ultimately show ?thesis by (rule tail)
      qed
    qed
  qed
qed

text \<open>
  On the three backends with \<open>P3\<close> not created and \<open>P1\<close> out of order:
  \<open>P2\<close> is deleted, \<open>P3\<close> is skipped, and the error of
  \<open>P1\<close> is thrown.
\<close>

theorem delete_existing_propagates_witness:
  "delete three_registry acme (init_sys (broken 1 (vacant 2 two_store))) =
     (Inl unavailable,
      (init_sys (broken 1 (vacant 2 two_store)))
        \<lparr>trace := [(''P2'', Exists acme), (''P2'', Delete acme), (''P3'', Exists acme),
                   (''P1'', Exists acme)],
         world := (broken 1 (vacant 2 two_store))
           (0 := (two_store 0)\<lparr>bk_present := False, bk_blobs := []\<rparr>)\<rparr>) \<and>
   (\<exists>j S. j < length three_registry \<and> S 0 = init_sys (broken 1 (vacant 2 two_store)) \<and>
      ((\<exists>w'. a_exists (snd (three_registry ! j)) acme (world (S j)) = (Inl unavailable, w') \<and>
          snd (delete three_registry acme (init_sys (broken 1 (vacant 2 two_store)))) = (S j)\<lparr>trace := trace (S j) @ [(fst (three_registry ! j), Exists acme)],
                 world := w'\<rparr>) \<or>
       (\<exists>w1 w'. a_exists (snd (three_registry ! j)) acme (world (S j)) = (Inr True, w1) \<and>
          a_delete (snd (three_registry ! j)) acme w1 = (Inl unavailable, w') \<and>
          snd (delete three_registry acme (init_sys (broken 1 (vacant 2 two_store)))) = (S j)\<lparr>trace := trace (S j) @
                   [(fst (three_registry ! j), Exists acme),
                    (fst (three_registry ! j), Delete acme)],
                 world := w'\<rparr>)))"
proof -
  let ?s' = "(init_sys (broken 1 (vacant 2 two_store)))
        \<lparr>trace := [(''P2'', Exists acme), (''P2'', Delete acme), (''P3'', Exists acme),
                   (''P1'', Exists acme)],
         world := (broken 1 (vacant 2 two_store))
           (0 := (two_store 0)\<lparr>bk_present := False, bk_blobs := []\<rparr>)\<rparr>"
  have a: "delete three_registry acme (init_sys (broken 1 (vacant 2 two_store))) =
     (Inl unavailable, ?s')"
    by (simp add: three_registry_def invoke_def stub_simps)
  from delete_existing_propagates[OF a]
  obtain j S where js: "j < length three_registry"
    "S 0 = init_sys (broken 1 (vacant 2 two_store))"
    "((\<exists>w'. a_exists (snd (three_registry ! j)) acme (world (S j)) = (Inl unavailable, w') \<and>
          ?s' = (S j)\<lparr>trace := trace (S j) @ [(fst (three_registry ! j), Exists acme)],
                 world := w'\<rparr>) \<or>
       (\<exists>w1 w'. a_exists (snd (three_registry ! j)) acme (world (S j)) = (Inr True, w1) \<and>
          a_delete (snd (three_registry ! j)) acme w1 = (Inl unavailable, w') \<and>
          ?s' = (S j)\<lparr>trace := trace (S j) @
                   [(fst (three_registry ! j), Exists acme),
                    (fst (three_registry ! j), Delete acme)],
                 world := w'\<rparr>))"
    by auto
  have "\<exists>j S. j < length three_registry \<and> S 0 = init_sys (broken 1 (vacant 2 two_store)) \<and>
      ((\<exists>w'. a_exists (snd (three_registry ! j)) acme (world (S j)) = (Inl unavailable, w') \<and>
          ?s' = (S j)\<lparr>trace := trace (S j) @ [(fst (three_registry ! j), Exists acme)],
                 world := w'\<rparr>) \<or>
       (\<exists>w1 w'. a_exists (snd (three_registry ! j)) acme (world (S j)) = (Inr True, w1) \<and>
          a_delete (snd (three_registry ! j)) acme w1 = (Inl unavailable, w') \<and>
          ?s' = (S j)\<lparr>trace := trace (S j) @
                   [(fst (three_registry ! j), Exists acme),
                    (fst (three_registry ! j), Delete acme)],
                 world := w'\<rparr>))"
    using js by blast
  with a show ?thesis by simp
qed

subsection \<open>Construction\<close>

lemma build_loop_result:
  "build_loop cs f acc s = (r, s') \<Longrightarrow>
   \<exists>j\<le>length cs.
     trace s' = trace s @ map (\<lambda>c. (sc_name c, Instantiate c)) (take j cs) \<and>
     (case r of
        Inl e \<Rightarrow> 0 < j \<and> (\<exists>w w'. f (cs ! (j - 1)) w = (Inl e, w'))
      | Inr ads \<Rightarrow>
          j = length cs \<and> (\<exists>new. ads = acc @ new \<and>
          list_all2 (\<lambda>c p. fst p = sc_name c \<and> (\<exists>w w'. f c w = (Inr (snd p), w'))) cs new))"
proof (induction cs arbitrary: acc s)
  case Nil
  then show ?case by auto
next
  case (Cons c cs)
  obtain r1 w1 where f1: "f c (world s) = (r1, w1)" by (cases "f c (world s)")
  let ?s1 = "s\<lparr>trace := trace s @ [(sc_name c, Instantiate c)], world := w1\<rparr>"
  have inv: "invoke (sc_name c) (Instantiate c) (f c) s = (r1, ?s1)"
    using f1 by (simp add: invoke_def)
  show ?case
  proof (cases r1)
    case (Inl e)
    with Cons.prems inv have "r = Inl e" "s' = ?s1" by auto
    then show ?thesis using f1 Inl
      by (intro exI[of _ 1]) auto
  next
    case (Inr a)
    with Cons.prems inv have "build_loop cs f (acc @ [(sc_name c, a)]) ?s1 = (r, s')" by auto
    from Cons.IH[OF this] obtain j where j: "j \<le> length cs"
      "trace s' = trace ?s1 @ map (\<lambda>c. (sc_name c, Instantiate c)) (take j cs)"
      "(case r of
        Inl e \<Rightarrow> 0 < j \<and> (\<exists>w w'. f (cs ! (j - 1)) w = (Inl e, w'))
      | Inr ads \<Rightarrow>
          j = length cs \<and> (\<exists>new. ads = (acc @ [(sc_name c, a)]) @ new \<and>
          list_all2 (\<lambda>c p. fst p = sc_name c \<and> (\<exists>w w'. f c w = (Inr (snd p), w'))) cs new))"
      by blast
    show ?thesis
    proof (cases r)
      case (Inl e)
      with j show ?thesis
        by (intro exI[of _ "Suc j"]) (auto simp: nth_Cons')
    next
      case (Inr ads)
      with j obtain new where n: "j = length cs" "ads = (acc @ [(sc_name c, a)]) @ new"
        "list_all2 (\<lambda>c p. fst p = sc_name c \<and> (\<exists>w w'. f c w = (Inr (snd p), w'))) cs new"
        by auto
      have "list_all2 (\<lambda>c p. fst p = sc_name c \<and> (\<exists>w w'. f c w = (Inr (snd p), w')))
          (c # cs) ((sc_name c, a) # new)"
        using n(3) f1 \<open>r1 = Inr a\<close> by auto
      with n j Inr show ?thesis
        by (intro exI[of _ "Suc j"]) auto
    qed
  qed
qed

lemma build_loop_pure:
  "build_loop cs (\<lambda>c w. (Inr (g c), w)) acc s =
     (Inr (acc @ map (\<lambda>c. (sc_name c, g c)) cs),
      s\<lparr>trace := trace s @ map (\<lambda>c. (sc_name c, Instantiate c)) cs\<rparr>)"
  by (induction cs arbitrary: acc s) (simp_all add: invoke_def)

text \<open>
  C8. \<^verbatim>\<open>buildStorage\<close> calls the factory on the configuration entries in declared order,
  and the registry it returns pairs, in reverse declaration order, the name of each entry
  with the backend the factory returned for that entry: the entry declared last is at
  index 0, the primary. For a factory that only computes, the registry is the reversed
  list of the entries' names and backends.
\<close>

theorem buildStorage_last_declared_is_primary:
  "(buildStorage config storageFactory s = (Inr adapters, s') \<longrightarrow>
      trace s' = trace s @ map (\<lambda>c. (sc_name c, Instantiate c)) (storages config) \<and>
      list_all2 (\<lambda>c p. fst p = sc_name c \<and> (\<exists>w w'. storageFactory c w = (Inr (snd p), w')))
        (rev (storages config)) adapters \<and>
      (storages config \<noteq> [] \<longrightarrow>
         adapters \<noteq> [] \<and> fst (hd adapters) = sc_name (last (storages config)) \<and>
         (\<exists>w w'. storageFactory (last (storages config)) w = (Inr (snd (hd adapters)), w')))) \<and>
   buildStorage config (\<lambda>c w. (Inr (g c), w)) s =
     (Inr (rev (map (\<lambda>c. (sc_name c, g c)) (storages config))),
      s\<lparr>trace := trace s @ map (\<lambda>c. (sc_name c, Instantiate c)) (storages config)\<rparr>)"
proof (intro conjI impI)
  show "buildStorage config (\<lambda>c w. (Inr (g c), w)) s =
     (Inr (rev (map (\<lambda>c. (sc_name c, g c)) (storages config))),
      s\<lparr>trace := trace s @ map (\<lambda>c. (sc_name c, Instantiate c)) (storages config)\<rparr>)"
    by (simp add: buildStorage_def build_loop_pure)
next
  assume b: "buildStorage config storageFactory s = (Inr adapters, s')"
  let ?R = "\<lambda>c p. fst p = sc_name c \<and> (\<exists>w w'. storageFactory c w = (Inr (snd p), w'))"
  from b obtain fwd where fwd: "build_loop (storages config) storageFactory [] s = (Inr fwd, s')"
    "adapters = rev fwd"
    by (auto simp: buildStorage_def split: prod.splits sum.splits)
  from build_loop_result[OF fwd(1)]
  have t: "trace s' = trace s @ map (\<lambda>c. (sc_name c, Instantiate c)) (storages config)"
    and l: "list_all2 ?R (storages config) fwd"
    by auto
  from l have l': "list_all2 ?R (rev (storages config)) adapters"
    unfolding fwd(2) by (simp add: list_all2_rev)
  show "trace s' = trace s @ map (\<lambda>c. (sc_name c, Instantiate c)) (storages config)"
    by (rule t)
  show "list_all2 ?R (rev (storages config)) adapters"
    by (rule l')
  assume ne: "storages config \<noteq> []"
  from ne obtain c cs where r: "rev (storages config) = c # cs"
    by (cases "rev (storages config)") auto
  then have c: "c = last (storages config)" using ne by (metis hd_rev list.sel(1))
  from l' r have l2: "list_all2 ?R (c # cs) adapters" by simp
  have "adapters \<noteq> [] \<and> fst (hd adapters) = sc_name (last (storages config)) \<and>
      (\<exists>w w'. storageFactory (last (storages config)) w = (Inr (snd (hd adapters)), w'))"
  proof (cases adapters)
    case Nil
    with l2 show ?thesis by simp
  next
    case (Cons p ps)
    with l2 have "fst p = sc_name c" and "\<exists>w w'. storageFactory c w = (Inr (snd p), w')"
      by simp_all
    then show ?thesis unfolding Cons c by simp
  qed
  then show "adapters \<noteq> []" "fst (hd adapters) = sc_name (last (storages config))"
    "\<exists>w w'. storageFactory (last (storages config)) w = (Inr (snd (hd adapters)), w')"
    by blast+
qed

text \<open>The configuration \<open>P1\<close>, \<open>P3\<close>, \<open>P2\<close> gives the registry \<open>P2\<close>, \<open>P3\<close>, \<open>P1\<close>.\<close>

theorem buildStorage_last_declared_is_primary_witness:
  "buildStorage three_configs stub_factory (init_sys two_store) =
     (Inr three_registry,
      (init_sys two_store)\<lparr>trace :=
         map (\<lambda>c. (sc_name c, Instantiate c)) (storages three_configs)\<rparr>) \<and>
   storages three_configs \<noteq> [] \<and>
   fst (hd three_registry) = sc_name (last (storages three_configs)) \<and>
   map fst three_registry = rev (map sc_name (storages three_configs))"
proof -
  have a: "buildStorage three_configs stub_factory (init_sys two_store) =
     (Inr three_registry,
      (init_sys two_store)\<lparr>trace :=
         map (\<lambda>c. (sc_name c, Instantiate c)) (storages three_configs)\<rparr>)"
    by (simp add: buildStorage_def three_configs_def stub_factory_def invoke_def init_sys_def
        three_registry_def)
  have b: "storages three_configs \<noteq> []" by (simp add: three_configs_def)
  have c: "map fst three_registry = rev (map sc_name (storages three_configs))"
    by (simp add: three_configs_def three_registry_def)
  from buildStorage_last_declared_is_primary[THEN conjunct1, THEN mp, OF a] b
  have "fst (hd three_registry) = sc_name (last (storages three_configs))" by blast
  with a b c show ?thesis by blast
qed

subsection \<open>The merged listing iterator\<close>

lemma open_stream_eq:
  "open_stream p ws s = (r, s') \<Longrightarrow>
   trace s' = trace s @ [(fst p, ListStream ws)] \<and>
   (case r of
      Inl e \<Rightarrow> live s' = live s \<and> peak s' = peak s \<and> fresh s' = fresh s
    | Inr c \<Rightarrow>
        c_id c = fresh s \<and> c_owner c = fst p \<and> live s' = live s @ [fresh s] \<and>
        peak s' = max (peak s) (Suc (length (live s))) \<and> fresh s' = Suc (fresh s))"
  by (auto simp: open_stream_def invoke_def split: prod.splits sum.splits)

lemma cursor_next_eq:
  "cursor_next c s = (r, s') \<Longrightarrow>
   trace s' = trace s @ [(c_owner c, IterNext (c_id c))] \<and>
   live s' = live s \<and> peak s' = peak s \<and> fresh s' = fresh s \<and>
   (\<exists>w'. it_next (c_it c) (world s) = (r, w'))"
  by (auto simp: cursor_next_def invoke_def split: prod.splits)

lemma cursor_close_eq:
  "cursor_close c s = (r, s') \<Longrightarrow>
   trace s' = trace s @ [(c_owner c, IterClose (c_id c))] \<and>
   peak s' = peak s \<and> fresh s' = fresh s \<and>
   (\<exists>w'. it_close (c_it c) (world s) = (r, w')) \<and>
   (case r of
      Inl e \<Rightarrow> live s' = live s
    | Inr u \<Rightarrow> live s' = removeAll (c_id c) (live s))"
  by (auto simp: cursor_close_def invoke_def split: prod.splits sum.splits)

lemma next_loop_one_open:
  "one_open it s \<Longrightarrow> next_loop ws ads prov it s = (r, m', s') \<Longrightarrow>
   one_open (mi_iterator m') s'"
proof (induction ws ads prov it s rule: next_loop.induct)
  case (1 ws provider s)
  then show ?case by (auto simp: one_open_def)
next
  case (2 ws p adapters provider s)
  obtain r1 s1 where o: "open_stream p ws s = (r1, s1)" by (cases "open_stream p ws s")
  note oe = open_stream_eq[OF o]
  show ?case
  proof (cases r1)
    case (Inl e)
    with "2.prems" o oe show ?thesis by (auto simp: one_open_def)
  next
    case (Inr c)
    with "2.prems"(1) oe have "one_open (Some c) s1" by (auto simp: one_open_def)
    moreover from "2.prems"(2) o Inr
    have "next_loop ws adapters (Some p) (Some c) s1 = (r, m', s')" by simp
    ultimately show ?thesis using "2.IH"[OF o[symmetric] Inr] by blast
  qed
next
  case (3 ws adapters provider it s)
  obtain r1 s1 where n: "cursor_next it s = (r1, s1)" by (cases "cursor_next it s")
  note ne = cursor_next_eq[OF n]
  from "3.prems"(1) ne have o1: "one_open (Some it) s1" by (auto simp: one_open_def)
  show ?case
  proof (cases r1)
    case (Inl e)
    with "3.prems" n o1 show ?thesis by auto
  next
    case (Inr docInfos)
    show ?thesis
    proof (cases "length docInfos > 0")
      case True
      with "3.prems" n Inr o1 show ?thesis by auto
    next
      case False
      obtain r2 s2 where c: "cursor_close it s1 = (r2, s2)" by (cases "cursor_close it s1")
      note ce = cursor_close_eq[OF c]
      show ?thesis
      proof (cases r2)
        case (Inl e)
        with "3.prems"(2) n Inr False c have "m' = \<lparr>mi_workspaceId = ws, mi_adapters = adapters,
            mi_provider = provider, mi_iterator = Some it\<rparr>" "s' = s2" by auto
        with o1 ce Inl show ?thesis by (auto simp: one_open_def)
      next
        case (Inr u)
        with o1 ce have "one_open None s2" by (auto simp: one_open_def)
        moreover from "3.prems"(2) n \<open>r1 = Inr docInfos\<close> False c Inr
        have "next_loop ws adapters provider None s2 = (r, m', s')" by simp
        ultimately show ?thesis
          using "3.IH"[OF n[symmetric] \<open>r1 = Inr docInfos\<close> False c[symmetric] Inr] by blast
      qed
    qed
  qed
qed

lemma mi_close_one_open:
  "one_open (mi_iterator m) s \<Longrightarrow> mi_close m s = (r, m', s') \<Longrightarrow> one_open (mi_iterator m') s'"
proof (cases "mi_iterator m")
  case None
  assume "one_open (mi_iterator m) s" "mi_close m s = (r, m', s')"
  with None show ?thesis by (simp add: mi_close_def)
next
  case (Some c)
  assume a: "one_open (mi_iterator m) s" "mi_close m s = (r, m', s')"
  obtain r2 s2 where c: "cursor_close c s = (r2, s2)" by (cases "cursor_close c s")
  from a(2) Some c have "m' = m" "s' = s2" by (simp_all add: mi_close_def)
  with a(1) Some cursor_close_eq[OF c] show ?thesis
    by (cases r2) (auto simp: one_open_def)
qed

lemma run_one_open:
  "one_open (mi_iterator m) s \<Longrightarrow> run ps m s = (m', s') \<Longrightarrow> one_open (mi_iterator m') s'"
proof (induction ps m s rule: run.induct)
  case (1 m s)
  then show ?case by simp
next
  case (2 ps m s)
  obtain r m1 s1 where n: "mi_next m s = (r, m1, s1)" by (cases "mi_next m s") auto
  from "2.prems"(1) n have "one_open (mi_iterator m1) s1"
    unfolding mi_next_def by (rule next_loop_one_open)
  moreover from "2.prems"(2) n have "run ps m1 s1 = (m', s')" by simp
  ultimately show ?case using "2.IH"[OF n[symmetric]] by blast
next
  case (3 ps m s)
  obtain r m1 s1 where n: "mi_close m s = (r, m1, s1)" by (cases "mi_close m s") auto
  from "3.prems"(1) n have "one_open (mi_iterator m1) s1"
    by (rule mi_close_one_open)
  moreover from "3.prems"(2) n have "run ps m1 s1 = (m', s')" by simp
  ultimately show ?case using "3.IH"[OF n[symmetric]] by blast
qed

lemma next_loop_empty_page:
  "next_loop ws ads prov it s = (Inr [], m', s') \<Longrightarrow> mi_iterator m' = None \<and> mi_adapters m' = []"
proof (induction ws ads prov it s rule: next_loop.induct)
  case (1 ws provider s)
  then show ?case by auto
next
  case (2 ws p adapters provider s)
  then show ?case by (auto split: prod.splits sum.splits)
next
  case (3 ws adapters provider it s)
  then show ?case by (auto split: prod.splits sum.splits if_splits)
qed


lemma in_order_step:
  "in_order R ws tr0 m s \<Longrightarrow> trace s' = trace s @ [e] \<Longrightarrow> opens [e] = [] \<Longrightarrow>
   mi_workspaceId m' = mi_workspaceId m \<Longrightarrow> mi_adapters m' = mi_adapters m \<Longrightarrow>
   mi_provider m' = mi_provider m \<Longrightarrow> (mi_iterator m' \<noteq> None \<longrightarrow> mi_iterator m \<noteq> None) \<Longrightarrow>
   in_order R ws tr0 m' s'"
  unfolding in_order_def
  apply (elim conjE exE)
  subgoal for pre t
    apply (intro conjI)
     apply simp
    apply (rule exI[of _ pre])
    apply (rule exI[of _ "t @ [e]"])
    apply (simp add: opens_def)
    done
  done

lemma in_order_open:
  "in_order R ws tr0 \<lparr>mi_workspaceId = ws, mi_adapters = p # ads, mi_provider = prov,
      mi_iterator = None\<rparr> s \<Longrightarrow>
   trace s' = trace s @ [(fst p, ListStream ws)] \<Longrightarrow>
   in_order R ws tr0 \<lparr>mi_workspaceId = ws, mi_adapters = ads, mi_provider = Some p,
      mi_iterator = it\<rparr> s'"
  unfolding in_order_def
  apply (elim conjE exE)
  subgoal for pre t
    apply (intro conjI)
     apply simp
    apply (rule exI[of _ "pre @ [p]"])
    apply (rule exI[of _ "t @ [(fst p, ListStream ws)]"])
    apply (simp add: opens_def)
    done
  done

lemma next_loop_in_order:
  "in_order R ws tr0 \<lparr>mi_workspaceId = ws, mi_adapters = ads, mi_provider = prov,
      mi_iterator = it\<rparr> s \<Longrightarrow>
   next_loop ws ads prov it s = (r, m', s') \<Longrightarrow> in_order R ws tr0 m' s'"
proof (induction ws ads prov it s rule: next_loop.induct)
  case (1 ws provider s)
  then show ?case by auto
next
  case (2 ws p adapters provider s)
  obtain r1 s1 where o: "open_stream p ws s = (r1, s1)" by (cases "open_stream p ws s")
  from open_stream_eq[OF o] have tr: "trace s1 = trace s @ [(fst p, ListStream ws)]" by simp
  note io = in_order_open[OF "2.prems"(1) tr]
  show ?case
  proof (cases r1)
    case (Inl e)
    with "2.prems"(2) o io[of None] show ?thesis by auto
  next
    case (Inr c)
    with "2.prems"(2) o
    have "next_loop ws adapters (Some p) (Some c) s1 = (r, m', s')" by simp
    with io[of "Some c"] show ?thesis using "2.IH"[OF o[symmetric] Inr] by blast
  qed
next
  case (3 ws adapters provider it s)
  let ?m = "\<lparr>mi_workspaceId = ws, mi_adapters = adapters, mi_provider = provider,
      mi_iterator = Some it\<rparr>"
  obtain r1 s1 where n: "cursor_next it s = (r1, s1)" by (cases "cursor_next it s")
  from cursor_next_eq[OF n] have tr1: "trace s1 = trace s @ [(c_owner it, IterNext (c_id it))]"
    by simp
  have o1: "in_order R ws tr0 ?m s1"
    by (rule in_order_step[OF "3.prems"(1) tr1]) (simp_all add: opens_def)
  show ?case
  proof (cases r1)
    case (Inl e)
    with "3.prems" n o1 show ?thesis by auto
  next
    case (Inr docInfos)
    show ?thesis
    proof (cases "length docInfos > 0")
      case True
      with "3.prems" n Inr o1 show ?thesis by auto
    next
      case False
      obtain r2 s2 where c: "cursor_close it s1 = (r2, s2)" by (cases "cursor_close it s1")
      from cursor_close_eq[OF c]
      have tr2: "trace s2 = trace s1 @ [(c_owner it, IterClose (c_id it))]" by simp
      show ?thesis
      proof (cases r2)
        case (Inl e)
        with "3.prems"(2) n Inr False c have "m' = ?m" "s' = s2" by auto
        moreover have "in_order R ws tr0 ?m s2"
          by (rule in_order_step[OF o1 tr2]) (simp_all add: opens_def)
        ultimately show ?thesis by simp
      next
        case (Inr u)
        have "in_order R ws tr0 \<lparr>mi_workspaceId = ws, mi_adapters = adapters,
            mi_provider = provider, mi_iterator = None\<rparr> s2"
          by (rule in_order_step[OF o1 tr2]) (simp_all add: opens_def)
        moreover from "3.prems"(2) n \<open>r1 = Inr docInfos\<close> False c Inr
        have "next_loop ws adapters provider None s2 = (r, m', s')" by simp
        ultimately show ?thesis
          using "3.IH"[OF n[symmetric] \<open>r1 = Inr docInfos\<close> False c[symmetric] Inr] by blast
      qed
    qed
  qed
qed

lemma mi_next_in_order:
  "in_order R ws tr0 m s \<Longrightarrow> mi_next m s = (r, m', s') \<Longrightarrow> in_order R ws tr0 m' s'"
proof -
  assume a: "in_order R ws tr0 m s" "mi_next m s = (r, m', s')"
  from a(1) have w: "mi_workspaceId m = ws" by (simp add: in_order_def)
  have "m = \<lparr>mi_workspaceId = ws, mi_adapters = mi_adapters m, mi_provider = mi_provider m,
      mi_iterator = mi_iterator m\<rparr>" using w by simp
  with a(1) have "in_order R ws tr0 \<lparr>mi_workspaceId = ws, mi_adapters = mi_adapters m,
      mi_provider = mi_provider m, mi_iterator = mi_iterator m\<rparr> s" by simp
  moreover from a(2) w have "next_loop ws (mi_adapters m) (mi_provider m) (mi_iterator m) s =
      (r, m', s')" by (simp add: mi_next_def)
  ultimately show ?thesis by (rule next_loop_in_order)
qed

lemma mi_close_in_order:
  "in_order R ws tr0 m s \<Longrightarrow> mi_close m s = (r, m', s') \<Longrightarrow> in_order R ws tr0 m' s'"
proof (cases "mi_iterator m")
  case None
  assume "in_order R ws tr0 m s" "mi_close m s = (r, m', s')"
  with None show ?thesis by (simp add: mi_close_def)
next
  case (Some c)
  assume a: "in_order R ws tr0 m s" "mi_close m s = (r, m', s')"
  obtain r2 s2 where c: "cursor_close c s = (r2, s2)" by (cases "cursor_close c s")
  from a(2) Some c have e: "m' = m" "s' = s2" by (simp_all add: mi_close_def)
  from cursor_close_eq[OF c] have "trace s2 = trace s @ [(c_owner c, IterClose (c_id c))]"
    by simp
  from in_order_step[OF a(1) this, of m] show ?thesis
    unfolding e by (simp add: opens_def)
qed

lemma run_in_order:
  "in_order R ws tr0 m s \<Longrightarrow> run ps m s = (m', s') \<Longrightarrow> in_order R ws tr0 m' s'"
proof (induction ps m s rule: run.induct)
  case (1 m s)
  then show ?case by simp
next
  case (2 ps m s)
  obtain r m1 s1 where n: "mi_next m s = (r, m1, s1)" by (cases "mi_next m s") auto
  from "2.prems"(1) n have "in_order R ws tr0 m1 s1" by (rule mi_next_in_order)
  moreover from "2.prems"(2) n have "run ps m1 s1 = (m', s')" by simp
  ultimately show ?case using "2.IH"[OF n[symmetric]] by blast
next
  case (3 ps m s)
  obtain r m1 s1 where n: "mi_close m s = (r, m1, s1)" by (cases "mi_close m s") auto
  from "3.prems"(1) n have "in_order R ws tr0 m1 s1" by (rule mi_close_in_order)
  moreover from "3.prems"(2) n have "run ps m1 s1 = (m', s')" by simp
  ultimately show ?case using "3.IH"[OF n[symmetric]] by blast
qed

lemma in_order_init: "in_order (rev ads) ws (trace s) (makeStorageIterator ads ws) s"
  by (simp add: in_order_def makeStorageIterator_def opens_def)

lemma next_loop_tags:
  "next_loop ws ads prov it s = (Inr docs, m', s') \<Longrightarrow>
   (\<forall>d\<in>set docs. lbr_provider d = map_option fst (mi_provider m')) \<and>
   (docs \<noteq> [] \<longrightarrow> mi_iterator m' \<noteq> None)"
proof (induction ws ads prov it s rule: next_loop.induct)
  case (1 ws provider s)
  then show ?case by auto
next
  case (2 ws p adapters provider s)
  then show ?case by (auto split: prod.splits sum.splits)
next
  case (3 ws adapters provider it s)
  then show ?case by (auto split: prod.splits sum.splits if_splits)
qed

lemma next_loop_leaves_exhausted:
  "next_loop ws ads prov (Some c) s = (r, m', s') \<Longrightarrow> mi_iterator m' \<noteq> Some c \<Longrightarrow>
   \<exists>w' w''. it_next (c_it c) (world s) = (Inr [], w') \<and> it_close (c_it c) w' = (Inr (), w'')"
  apply (simp split: prod.splits sum.splits if_splits)
  apply (auto simp: cursor_next_def cursor_close_def invoke_def split: prod.splits sum.splits)
  done

lemma stub_listStream:
  "a_listStream (stub i) = (\<lambda>ws. guarded i (\<lambda>w.
     (Inr (stub_cursor i),
      w(i := (w i)\<lparr>bk_pending := chunks (bk_page (w i)) (map entry (bk_blobs (w i)))\<rparr>))))"
  by (simp add: stub_def)

lemma stub_cursor_fields:
  "it_next (stub_cursor i) = guarded i (\<lambda>w. case bk_pending (w i) of
          [] \<Rightarrow> (Inr [], w)
        | page # pages \<Rightarrow> (Inr page, w(i := (w i)\<lparr>bk_pending := pages\<rparr>)))"
  "it_close (stub_cursor i) = guarded i (\<lambda>w. (Inr (), w))"
  by (simp_all add: stub_cursor_def)

lemma concat_chunks: "concat (chunks n xs) = xs"
  by (induction n xs rule: chunks.induct) simp_all

lemma chunks_nonempty: "[] \<notin> set (chunks n xs)"
  by (induction n xs rule: chunks.induct) simp_all

lemma length_chunks: "length (chunks n xs) \<le> length xs"
proof (induction n xs rule: chunks.induct)
  case (1 n)
  show ?case by simp
next
  case (2 n x xs)
  have "length (chunks n (drop n xs)) \<le> length (drop n xs)" by (rule "2.IH")
  then show ?case by simp
qed

lemma stub_open:
  "\<not> bk_faulty (world s i) \<Longrightarrow>
   \<exists>s'. open_stream (k, stub i) ws s =
          (Inr \<lparr>c_id = fresh s, c_owner = k, c_it = stub_cursor i\<rparr>, s') \<and>
        world s' = (world s)(i := (world s i)
          \<lparr>bk_pending := chunks (bk_page (world s i)) (map entry (bk_blobs (world s i)))\<rparr>)"
  by (simp add: open_stream_def invoke_def stub_def guarded_def)

lemma stub_next_nil:
  "c_it c = stub_cursor i \<Longrightarrow> \<not> bk_faulty (world s i) \<Longrightarrow> bk_pending (world s i) = [] \<Longrightarrow>
   \<exists>s'. cursor_next c s = (Inr [], s') \<and> world s' = world s"
  by (simp add: cursor_next_def invoke_def stub_cursor_def guarded_def)

lemma stub_next_cons:
  "c_it c = stub_cursor i \<Longrightarrow> \<not> bk_faulty (world s i) \<Longrightarrow>
   bk_pending (world s i) = page # pages \<Longrightarrow>
   \<exists>s'. cursor_next c s = (Inr page, s') \<and>
        world s' = (world s)(i := (world s i)\<lparr>bk_pending := pages\<rparr>)"
  by (simp add: cursor_next_def invoke_def stub_cursor_def guarded_def)

lemma stub_close:
  "c_it c = stub_cursor i \<Longrightarrow> \<not> bk_faulty (world s i) \<Longrightarrow>
   \<exists>s'. cursor_close c s = (Inr (), s') \<and> world s' = world s"
  by (simp add: cursor_close_def invoke_def stub_cursor_def guarded_def)

lemma drain_cong:
  "mi_next m s = mi_next m' s' \<Longrightarrow> drain (Suc n) m s = drain (Suc n) m' s'"
  by simp

lemma ready_pending:
  "ready B P w \<Longrightarrow> ready B P (w(i := (w i)\<lparr>bk_pending := pages\<rparr>))"
  by (simp add: ready_def)

lemma drain_cursor:
  assumes D2: "\<And>n s prov. ready B P (world s) \<Longrightarrow>
      sum_list (map (\<lambda>ki. length (chunks (P (snd ki)) (map entry (B (snd ki))))) L) < n \<Longrightarrow>
      fst (drain n \<lparr>mi_workspaceId = ws, mi_adapters = stubs L, mi_provider = prov,
          mi_iterator = None\<rparr> s) =
        concat (map (\<lambda>ki. map (\<lambda>x. (entry x)\<lparr>lbr_provider := Some (fst ki)\<rparr>) (B (snd ki))) L)"
  shows "ready B P (world s) \<Longrightarrow> c_it c = stub_cursor i \<Longrightarrow>
      bk_pending (world s i) = pages \<Longrightarrow> [] \<notin> set pages \<Longrightarrow>
      length pages +
        sum_list (map (\<lambda>ki. length (chunks (P (snd ki)) (map entry (B (snd ki))))) L) < n \<Longrightarrow>
      fst (drain n \<lparr>mi_workspaceId = ws, mi_adapters = stubs L, mi_provider = Some (k, stub i),
          mi_iterator = Some c\<rparr> s) =
        map (\<lambda>d. d\<lparr>lbr_provider := Some k\<rparr>) (concat pages) @
        concat (map (\<lambda>ki. map (\<lambda>x. (entry x)\<lparr>lbr_provider := Some (fst ki)\<rparr>) (B (snd ki))) L)"
proof (induction pages arbitrary: n s)
  case Nil
  let ?m = "\<lparr>mi_workspaceId = ws, mi_adapters = stubs L, mi_provider = Some (k, stub i),
          mi_iterator = Some c\<rparr>"
  let ?m2 = "\<lparr>mi_workspaceId = ws, mi_adapters = stubs L, mi_provider = Some (k, stub i),
          mi_iterator = None\<rparr>"
  from Nil.prems(1) have nf: "\<not> bk_faulty (world s i)" by (simp add: ready_def)
  from stub_next_nil[OF Nil.prems(2) nf Nil.prems(3)] obtain s1 where
    s1: "cursor_next c s = (Inr [], s1)" "world s1 = world s" by blast
  from nf s1(2) have nf1: "\<not> bk_faulty (world s1 i)" by simp
  from stub_close[OF Nil.prems(2) nf1] obtain s2 where
    s2: "cursor_close c s1 = (Inr (), s2)" "world s2 = world s1" by blast
  have step: "mi_next ?m s = mi_next ?m2 s2"
    using s1(1) s2(1) by (simp add: mi_next_def)
  from Nil.prems(5) obtain n' where n: "n = Suc n'" by (cases n) auto
  have r2: "ready B P (world s2)" using Nil.prems(1) s1(2) s2(2) by simp
  have "fst (drain n ?m s) = fst (drain n ?m2 s2)"
    unfolding n using drain_cong[OF step] by simp
  also have "\<dots> =
      concat (map (\<lambda>ki. map (\<lambda>x. (entry x)\<lparr>lbr_provider := Some (fst ki)\<rparr>) (B (snd ki))) L)"
    using D2[OF r2, of n "Some (k, stub i)"] Nil.prems(5) by simp
  finally show ?case by simp
next
  case (Cons page pages)
  let ?m = "\<lparr>mi_workspaceId = ws, mi_adapters = stubs L, mi_provider = Some (k, stub i),
          mi_iterator = Some c\<rparr>"
  from Cons.prems(1) have nf: "\<not> bk_faulty (world s i)" by (simp add: ready_def)
  from Cons.prems(4) have ne: "page \<noteq> []" and rest: "[] \<notin> set pages" by auto
  from stub_next_cons[OF Cons.prems(2) nf Cons.prems(3)] obtain s1 where
    s1: "cursor_next c s = (Inr page, s1)"
        "world s1 = (world s)(i := (world s i)\<lparr>bk_pending := pages\<rparr>)" by blast
  have step: "mi_next ?m s = (Inr (map (\<lambda>d. d\<lparr>lbr_provider := Some k\<rparr>) page), ?m, s1)"
    using s1(1) ne by (simp add: mi_next_def)
  from Cons.prems(5) obtain n' where n: "n = Suc n'" by (cases n) auto
  have r1: "ready B P (world s1)" unfolding s1(2) by (rule ready_pending[OF Cons.prems(1)])
  have p1: "bk_pending (world s1 i) = pages" unfolding s1(2) by simp
  have "length pages +
      sum_list (map (\<lambda>ki. length (chunks (P (snd ki)) (map entry (B (snd ki))))) L) < n'"
    using Cons.prems(5) n by simp
  from Cons.IH[OF r1 Cons.prems(2) p1 rest this]
  show ?case
    unfolding n using ne by (cases "drain n' ?m s1") (simp add: step)
qed

lemma drain_fresh:
  "ready B P (world s) \<Longrightarrow>
   sum_list (map (\<lambda>ki. length (chunks (P (snd ki)) (map entry (B (snd ki))))) L) < n \<Longrightarrow>
   fst (drain n \<lparr>mi_workspaceId = ws, mi_adapters = stubs L, mi_provider = prov,
       mi_iterator = None\<rparr> s) =
     concat (map (\<lambda>ki. map (\<lambda>x. (entry x)\<lparr>lbr_provider := Some (fst ki)\<rparr>) (B (snd ki))) L)"
proof (induction L arbitrary: n s prov)
  case Nil
  from Nil.prems(2) obtain n' where n: "n = Suc n'" by (cases n) auto
  show ?case unfolding n by (simp add: mi_next_def stubs_def)
next
  case (Cons ki L)
  obtain k i where ki: "ki = (k, i)" by (cases ki)
  let ?m = "\<lparr>mi_workspaceId = ws, mi_adapters = stubs (ki # L), mi_provider = prov,
       mi_iterator = None\<rparr>"
  from Cons.prems(1) have nf: "\<not> bk_faulty (world s i)" and bl: "bk_blobs (world s i) = B i"
    and pg: "bk_page (world s i) = P i"
    by (simp_all add: ready_def)
  from stub_open[OF nf, of k ws] obtain s1 where
    s1: "open_stream (k, stub i) ws s =
          (Inr \<lparr>c_id = fresh s, c_owner = k, c_it = stub_cursor i\<rparr>, s1)"
        "world s1 = (world s)(i := (world s i)
          \<lparr>bk_pending := chunks (bk_page (world s i)) (map entry (bk_blobs (world s i)))\<rparr>)"
    by blast
  let ?c = "\<lparr>c_id = fresh s, c_owner = k, c_it = stub_cursor i\<rparr>"
  let ?m1 = "\<lparr>mi_workspaceId = ws, mi_adapters = stubs L, mi_provider = Some (k, stub i),
       mi_iterator = Some ?c\<rparr>"
  have step: "mi_next ?m s = mi_next ?m1 s1"
    using s1(1) by (simp add: mi_next_def stubs_def ki)
  from Cons.prems(2) obtain n' where n: "n = Suc n'" by (cases n) auto
  have r1: "ready B P (world s1)" unfolding s1(2) by (rule ready_pending[OF Cons.prems(1)])
  have p1: "bk_pending (world s1 i) = chunks (P i) (map entry (B i))"
    unfolding s1(2) by (simp add: bl pg)
  have c1: "c_it ?c = stub_cursor i" by simp
  have b: "length (chunks (P i) (map entry (B i))) +
      sum_list (map (\<lambda>ki. length (chunks (P (snd ki)) (map entry (B (snd ki))))) L) < n"
    using Cons.prems(2) ki by simp
  have "fst (drain n ?m s) = fst (drain n ?m1 s1)"
    unfolding n using drain_cong[OF step] by simp
  also have "\<dots> =
      map (\<lambda>d. d\<lparr>lbr_provider := Some k\<rparr>) (concat (chunks (P i) (map entry (B i)))) @
      concat (map (\<lambda>ki. map (\<lambda>x. (entry x)\<lparr>lbr_provider := Some (fst ki)\<rparr>) (B (snd ki))) L)"
    by (rule drain_cursor[OF Cons.IH r1 c1 p1 chunks_nonempty b])
  finally show ?case by (simp add: ki concat_chunks)
qed

lemma drain_stubs:
  "\<forall>i. \<not> bk_faulty (world s i) \<Longrightarrow>
   sum_list (map (\<lambda>ki. length (bk_blobs (world s (snd ki)))) kis) < n \<Longrightarrow>
   fst (drain n (makeStorageIterator (stubs kis) ws) s) =
     concat (map (\<lambda>ki. listing (fst ki) (world s (snd ki))) (rev kis))"
proof -
  assume a: "\<forall>i. \<not> bk_faulty (world s i)"
    and b: "sum_list (map (\<lambda>ki. length (bk_blobs (world s (snd ki)))) kis) < n"
  let ?B = "\<lambda>j. bk_blobs (world s j)"
  let ?P = "\<lambda>j. bk_page (world s j)"
  have r: "ready ?B ?P (world s)" using a by (simp add: ready_def)
  have "sum_list (map (\<lambda>ki. length (chunks (?P (snd ki)) (map entry (?B (snd ki))))) (rev kis))
      \<le> sum_list (map (\<lambda>ki. length (?B (snd ki))) (rev kis))"
    by (rule sum_list_mono) (use length_chunks[of _ "map entry _"] in simp)
  also have "\<dots> < n" using b by (simp add: rev_map[symmetric])
  finally have t: "sum_list
      (map (\<lambda>ki. length (chunks (?P (snd ki)) (map entry (?B (snd ki))))) (rev kis)) < n" .
  have m: "makeStorageIterator (stubs kis) ws =
      \<lparr>mi_workspaceId = ws, mi_adapters = stubs (rev kis), mi_provider = None,
       mi_iterator = None\<rparr>"
    by (simp add: makeStorageIterator_def stubs_def rev_map)
  show ?thesis
    unfolding m using drain_fresh[OF r t, of ws None] by (simp add: listing_def)
qed

lemma mi_next_end:
  "mi_iterator m = None \<and> mi_adapters m = [] \<Longrightarrow>
   mi_next m s = (Inr [], m, s)"
  by (cases m) (auto simp: mi_next_def open_stream_def cursor_next_def cursor_close_def invoke_def)

lemma mi_next_open:
  "mi_iterator m = None \<and> mi_adapters m = p # rest \<and>
    a_listStream (snd p) (mi_workspaceId m) (world s) = (Inr it, w') \<Longrightarrow>
   mi_next m s =
     mi_next
       (m\<lparr>mi_adapters := rest, mi_provider := Some p,
          mi_iterator := Some \<lparr>c_id = fresh s, c_owner = fst p, c_it = it\<rparr>\<rparr>)
       (s\<lparr>trace := trace s @ [(fst p, ListStream (mi_workspaceId m))], world := w',
          live := live s @ [fresh s], peak := max (peak s) (Suc (length (live s))),
          fresh := Suc (fresh s)\<rparr>)"
  by (cases m) (auto simp: mi_next_def open_stream_def cursor_next_def cursor_close_def invoke_def)

lemma mi_next_open_throws:
  "mi_iterator m = None \<and> mi_adapters m = p # rest \<and>
    a_listStream (snd p) (mi_workspaceId m) (world s) = (Inl e, w') \<Longrightarrow>
   mi_next m s =
     (Inl e, m\<lparr>mi_adapters := rest, mi_provider := Some p\<rparr>,
      s\<lparr>trace := trace s @ [(fst p, ListStream (mi_workspaceId m))], world := w'\<rparr>)"
  by (cases m) (auto simp: mi_next_def open_stream_def cursor_next_def cursor_close_def invoke_def)

lemma mi_next_page:
  "mi_iterator m = Some c \<and> it_next (c_it c) (world s) = (Inr page, w') \<and> page \<noteq> [] \<Longrightarrow>
   mi_next m s =
     (Inr (map (\<lambda>d. d\<lparr>lbr_provider := map_option fst (mi_provider m)\<rparr>) page), m,
      s\<lparr>trace := trace s @ [(c_owner c, IterNext (c_id c))], world := w'\<rparr>)"
  by (cases m) (auto simp: mi_next_def open_stream_def cursor_next_def cursor_close_def invoke_def)

lemma mi_next_throws:
  "mi_iterator m = Some c \<and> it_next (c_it c) (world s) = (Inl e, w') \<Longrightarrow>
   mi_next m s =
     (Inl e, m, s\<lparr>trace := trace s @ [(c_owner c, IterNext (c_id c))], world := w'\<rparr>)"
  by (cases m) (auto simp: mi_next_def open_stream_def cursor_next_def cursor_close_def invoke_def)

lemma mi_next_move:
  "mi_iterator m = Some c \<and> it_next (c_it c) (world s) = (Inr [], w1) \<and>
    it_close (c_it c) w1 = (Inr (), w2) \<Longrightarrow>
   mi_next m s =
     mi_next (m\<lparr>mi_iterator := None\<rparr>)
       (s\<lparr>trace := trace s @
            [(c_owner c, IterNext (c_id c)), (c_owner c, IterClose (c_id c))],
          world := w2, live := removeAll (c_id c) (live s)\<rparr>)"
  by (cases m) (auto simp: mi_next_def open_stream_def cursor_next_def cursor_close_def invoke_def)

lemma mi_next_close_throws:
  "mi_iterator m = Some c \<and> it_next (c_it c) (world s) = (Inr [], w1) \<and>
    it_close (c_it c) w1 = (Inl e, w2) \<Longrightarrow>
   mi_next m s =
     (Inl e, m,
      s\<lparr>trace := trace s @
           [(c_owner c, IterNext (c_id c)), (c_owner c, IterClose (c_id c))],
         world := w2\<rparr>)"
  by (cases m) (auto simp: mi_next_def open_stream_def cursor_next_def cursor_close_def invoke_def)

text \<open>
  C2. \<^verbatim>\<open>listStream\<close> returns a new merged iterator and calls no backend. A \<^verbatim>\<open>next\<close> of
  the iterator is determined step by step by what the backends do in the world of the
  call. With no cursor held and no backend left it returns the empty page and calls
  nothing. With no cursor held it calls \<^verbatim>\<open>listStream\<close> of the last backend of the registry
  not yet opened, selects that backend and goes on with the cursor obtained, in the world
  that call left; if that call throws, the error is the result. With a cursor held it
  calls \<^verbatim>\<open>next\<close> of that cursor: a non-empty page is returned whole, in the order the
  backend gave it, each entry under the name of the selected provider, and nothing else is
  called; the empty page makes it close the cursor, in the world the cursor's \<^verbatim>\<open>next\<close>
  left, let go of it and go on with the backends that remain; an error of the cursor's
  \<^verbatim>\<open>next\<close> or \<^verbatim>\<open>close\<close> is the result. Whatever sequence of \<^verbatim>\<open>next\<close> and \<^verbatim>\<open>close\<close> calls
  is made on a new iterator, the backends whose \<^verbatim>\<open>listStream\<close> it has called are, in
  order, the first entries of the reversed registry, so the fallback declared first comes
  first and the primary last, and the selected provider is the backend opened last. Every
  entry a \<^verbatim>\<open>next\<close> returns carries the name of the selected provider. The iterator lets go
  of a cursor only in a \<^verbatim>\<open>next\<close> in which that cursor returned the empty page and was
  closed. On in-memory backends none of which is faulty, whatever the size of their pages,
  pulling until the empty page yields the listing of each backend in full, under its
  registry name, in reverse registry order: every entry of a fallback comes before every
  entry of the primary.
\<close>

theorem merged_listing_order:
  "listStream ads ws s = (Inr (makeStorageIterator ads ws), s) \<and>
   (mi_iterator m5 = None \<and> mi_adapters m5 = [] \<longrightarrow>
      mi_next m5 s5 = (Inr [], m5, s5)) \<and>
   (mi_iterator m5 = None \<and> mi_adapters m5 = p # rest \<and>
    a_listStream (snd p) (mi_workspaceId m5) (world s5) = (Inr it, w') \<longrightarrow>
      mi_next m5 s5 =
        mi_next
          (m5\<lparr>mi_adapters := rest, mi_provider := Some p,
             mi_iterator := Some \<lparr>c_id = fresh s5, c_owner = fst p, c_it = it\<rparr>\<rparr>)
          (s5\<lparr>trace := trace s5 @ [(fst p, ListStream (mi_workspaceId m5))], world := w',
             live := live s5 @ [fresh s5], peak := max (peak s5) (Suc (length (live s5))),
             fresh := Suc (fresh s5)\<rparr>)) \<and>
   (mi_iterator m5 = None \<and> mi_adapters m5 = p # rest \<and>
    a_listStream (snd p) (mi_workspaceId m5) (world s5) = (Inl e, w') \<longrightarrow>
      mi_next m5 s5 =
        (Inl e, m5\<lparr>mi_adapters := rest, mi_provider := Some p\<rparr>,
         s5\<lparr>trace := trace s5 @ [(fst p, ListStream (mi_workspaceId m5))], world := w'\<rparr>)) \<and>
   (mi_iterator m5 = Some cur \<and> it_next (c_it cur) (world s5) = (Inr page, w') \<and> page \<noteq> [] \<longrightarrow>
      mi_next m5 s5 =
        (Inr (map (\<lambda>d. d\<lparr>lbr_provider := map_option fst (mi_provider m5)\<rparr>) page), m5,
         s5\<lparr>trace := trace s5 @ [(c_owner cur, IterNext (c_id cur))], world := w'\<rparr>)) \<and>
   (mi_iterator m5 = Some cur \<and> it_next (c_it cur) (world s5) = (Inl e, w') \<longrightarrow>
      mi_next m5 s5 =
        (Inl e, m5, s5\<lparr>trace := trace s5 @ [(c_owner cur, IterNext (c_id cur))], world := w'\<rparr>)) \<and>
   (mi_iterator m5 = Some cur \<and> it_next (c_it cur) (world s5) = (Inr [], w1) \<and>
    it_close (c_it cur) w1 = (Inr (), w2) \<longrightarrow>
      mi_next m5 s5 =
        mi_next (m5\<lparr>mi_iterator := None\<rparr>)
          (s5\<lparr>trace := trace s5 @
               [(c_owner cur, IterNext (c_id cur)), (c_owner cur, IterClose (c_id cur))],
             world := w2, live := removeAll (c_id cur) (live s5)\<rparr>)) \<and>
   (mi_iterator m5 = Some cur \<and> it_next (c_it cur) (world s5) = (Inr [], w1) \<and>
    it_close (c_it cur) w1 = (Inl e, w2) \<longrightarrow>
      mi_next m5 s5 =
        (Inl e, m5,
         s5\<lparr>trace := trace s5 @
              [(c_owner cur, IterNext (c_id cur)), (c_owner cur, IterClose (c_id cur))],
            world := w2\<rparr>)) \<and>
   (run ps (makeStorageIterator ads ws) s = (m, s') \<longrightarrow>
      (\<exists>pre t. rev ads = pre @ mi_adapters m \<and> trace s' = trace s @ t \<and>
         opens t = map (\<lambda>p. (fst p, ListStream ws)) pre \<and>
         (mi_iterator m \<noteq> None \<longrightarrow> pre \<noteq> [] \<and> mi_provider m = Some (last pre)))) \<and>
   (mi_next m1 s1 = (Inr docs, m2, s2) \<longrightarrow>
      (\<forall>d\<in>set docs. lbr_provider d = map_option fst (mi_provider m2)) \<and>
      (docs \<noteq> [] \<longrightarrow> mi_iterator m2 \<noteq> None)) \<and>
   (mi_iterator m1 = Some c \<and> mi_next m1 s1 = (r, m3, s3) \<and> mi_iterator m3 \<noteq> Some c \<longrightarrow>
      (\<exists>w' w''. it_next (c_it c) (world s1) = (Inr [], w') \<and>
         it_close (c_it c) w' = (Inr (), w''))) \<and>
   ((\<forall>i. \<not> bk_faulty (world s4 i)) \<and>
    sum_list (map (\<lambda>ki. length (bk_blobs (world s4 (snd ki)))) kis) < n \<longrightarrow>
      fst (drain n (makeStorageIterator (stubs kis) ws) s4) =
        concat (map (\<lambda>ki. listing (fst ki) (world s4 (snd ki))) (rev kis)))"
proof (intro conjI impI)
  show "listStream ads ws s = (Inr (makeStorageIterator ads ws), s)"
    by (simp add: listStream_def)
next
  assume "mi_iterator m5 = None \<and> mi_adapters m5 = []"
  then show "mi_next m5 s5 = (Inr [], m5, s5)"
    by (rule mi_next_end)
next
  assume "mi_iterator m5 = None \<and> mi_adapters m5 = p # rest \<and>
    a_listStream (snd p) (mi_workspaceId m5) (world s5) = (Inr it, w')"
  then show "mi_next m5 s5 =
        mi_next
          (m5\<lparr>mi_adapters := rest, mi_provider := Some p,
             mi_iterator := Some \<lparr>c_id = fresh s5, c_owner = fst p, c_it = it\<rparr>\<rparr>)
          (s5\<lparr>trace := trace s5 @ [(fst p, ListStream (mi_workspaceId m5))], world := w',
             live := live s5 @ [fresh s5], peak := max (peak s5) (Suc (length (live s5))),
             fresh := Suc (fresh s5)\<rparr>)"
    by (rule mi_next_open)
next
  assume "mi_iterator m5 = None \<and> mi_adapters m5 = p # rest \<and>
    a_listStream (snd p) (mi_workspaceId m5) (world s5) = (Inl e, w')"
  then show "mi_next m5 s5 =
        (Inl e, m5\<lparr>mi_adapters := rest, mi_provider := Some p\<rparr>,
         s5\<lparr>trace := trace s5 @ [(fst p, ListStream (mi_workspaceId m5))], world := w'\<rparr>)"
    by (rule mi_next_open_throws)
next
  assume "mi_iterator m5 = Some cur \<and> it_next (c_it cur) (world s5) = (Inr page, w') \<and> page \<noteq> []"
  then show "mi_next m5 s5 =
        (Inr (map (\<lambda>d. d\<lparr>lbr_provider := map_option fst (mi_provider m5)\<rparr>) page), m5,
         s5\<lparr>trace := trace s5 @ [(c_owner cur, IterNext (c_id cur))], world := w'\<rparr>)"
    by (rule mi_next_page)
next
  assume "mi_iterator m5 = Some cur \<and> it_next (c_it cur) (world s5) = (Inl e, w')"
  then show "mi_next m5 s5 =
        (Inl e, m5, s5\<lparr>trace := trace s5 @ [(c_owner cur, IterNext (c_id cur))], world := w'\<rparr>)"
    by (rule mi_next_throws)
next
  assume "mi_iterator m5 = Some cur \<and> it_next (c_it cur) (world s5) = (Inr [], w1) \<and>
    it_close (c_it cur) w1 = (Inr (), w2)"
  then show "mi_next m5 s5 =
        mi_next (m5\<lparr>mi_iterator := None\<rparr>)
          (s5\<lparr>trace := trace s5 @
               [(c_owner cur, IterNext (c_id cur)), (c_owner cur, IterClose (c_id cur))],
             world := w2, live := removeAll (c_id cur) (live s5)\<rparr>)"
    by (rule mi_next_move)
next
  assume "mi_iterator m5 = Some cur \<and> it_next (c_it cur) (world s5) = (Inr [], w1) \<and>
    it_close (c_it cur) w1 = (Inl e, w2)"
  then show "mi_next m5 s5 =
        (Inl e, m5,
         s5\<lparr>trace := trace s5 @
              [(c_owner cur, IterNext (c_id cur)), (c_owner cur, IterClose (c_id cur))],
            world := w2\<rparr>)"
    by (rule mi_next_close_throws)
next
  assume "run ps (makeStorageIterator ads ws) s = (m, s')"
  with in_order_init[of ads ws s] have "in_order (rev ads) ws (trace s) m s'"
    by (rule run_in_order)
  then show "\<exists>pre t. rev ads = pre @ mi_adapters m \<and> trace s' = trace s @ t \<and>
         opens t = map (\<lambda>p. (fst p, ListStream ws)) pre \<and>
         (mi_iterator m \<noteq> None \<longrightarrow> pre \<noteq> [] \<and> mi_provider m = Some (last pre))"
    by (simp add: in_order_def)
next
  assume a: "mi_next m1 s1 = (Inr docs, m2, s2)"
  from next_loop_tags[OF a[unfolded mi_next_def]]
  show "\<forall>d\<in>set docs. lbr_provider d = map_option fst (mi_provider m2)"
    and "docs \<noteq> [] \<Longrightarrow> mi_iterator m2 \<noteq> None"
    by blast+
next
  assume a: "mi_iterator m1 = Some c \<and> mi_next m1 s1 = (r, m3, s3) \<and> mi_iterator m3 \<noteq> Some c"
  then have a1: "mi_iterator m1 = Some c" and a2: "mi_next m1 s1 = (r, m3, s3)" by blast+
  from a2 have "next_loop (mi_workspaceId m1) (mi_adapters m1) (mi_provider m1) (Some c) s1 =
      (r, m3, s3)" unfolding mi_next_def a1 .
  from next_loop_leaves_exhausted[OF this] a
  show "\<exists>w' w''. it_next (c_it c) (world s1) = (Inr [], w') \<and>
         it_close (c_it c) w' = (Inr (), w'')" by blast
next
  assume "(\<forall>i. \<not> bk_faulty (world s4 i)) \<and>
    sum_list (map (\<lambda>ki. length (bk_blobs (world s4 (snd ki)))) kis) < n"
  then show "fst (drain n (makeStorageIterator (stubs kis) ws) s4) =
        concat (map (\<lambda>ki. listing (fst ki) (world s4 (snd ki))) (rev kis))"
    using drain_stubs[of s4 kis n ws] by blast
qed

text \<open>
  The fallback \<open>P1\<close> holds \<open>a\<close> and \<open>b\<close>, the primary \<open>P2\<close> holds \<open>b\<close> and \<open>c\<close>: the merged
  listing is \<open>a\<close>, \<open>b\<close> from \<open>P1\<close>, \<open>b\<close> from \<open>P2\<close>, \<open>c\<close>, and \<open>P1\<close> is opened before \<open>P2\<close>.
  With pages of one entry the first pull returns \<open>a\<close> under the name of the selected
  provider \<open>P1\<close>; the third pull lets go of the cursor of \<open>P1\<close>, which had returned the
  empty page and was closed. With pages of two entries the merged listing is the same and
  the first pull returns the whole page \<open>a\<close>, \<open>b\<close> of \<open>P1\<close>, after the two calls
  \<^verbatim>\<open>listStream\<close> and \<^verbatim>\<open>next\<close> on \<open>P1\<close>. With \<open>P1\<close> out of order the first pull fails
  with the error of its \<^verbatim>\<open>listStream\<close>.
\<close>

theorem merged_listing_order_witness:
  "((\<forall>i. \<not> bk_faulty (world (init_sys two_store) i)) \<and>
     sum_list (map (\<lambda>ki. length (bk_blobs (world (init_sys two_store) (snd ki))))
       [(''P2'', 0), (''P1'', 1)]) < 5 \<and>
     fst (drain 5 (makeStorageIterator two_registry acme) (init_sys two_store)) =
       [\<lparr>lbr_id = ''a'', lbr_etag = ''old a'', lbr_size = 5, lbr_provider = Some ''P1''\<rparr>,
        \<lparr>lbr_id = ''b'', lbr_etag = ''old b'', lbr_size = 5, lbr_provider = Some ''P1''\<rparr>,
        \<lparr>lbr_id = ''b'', lbr_etag = ''new b'', lbr_size = 5, lbr_provider = Some ''P2''\<rparr>,
        \<lparr>lbr_id = ''c'', lbr_etag = ''new c'', lbr_size = 5, lbr_provider = Some ''P2''\<rparr>] \<and>
     (\<exists>pre t. rev two_registry =
          pre @ mi_adapters (fst (run [Next, Next, Next] (makeStorageIterator two_registry acme)
            (init_sys two_store))) \<and>
        trace (snd (run [Next, Next, Next] (makeStorageIterator two_registry acme)
            (init_sys two_store))) = t \<and>
        opens t = map (\<lambda>p. (fst p, ListStream acme)) pre) \<and>
     opens (trace (snd (run [Next, Next, Next] (makeStorageIterator two_registry acme)
            (init_sys two_store)))) = [(''P1'', ListStream acme), (''P2'', ListStream acme)]) \<and>
   (fst (mi_next (makeStorageIterator two_registry acme) (init_sys two_store)) =
       Inr [\<lparr>lbr_id = ''a'', lbr_etag = ''old a'', lbr_size = 5, lbr_provider = Some ''P1''\<rparr>] \<and>
     map_option fst (mi_provider (fst (snd (mi_next (makeStorageIterator two_registry acme)
       (init_sys two_store))))) = Some ''P1'') \<and>
   (mi_iterator (fst (run [Next, Next] (makeStorageIterator two_registry acme)
        (init_sys two_store))) = Some \<lparr>c_id = 0, c_owner = ''P1'', c_it = stub_cursor 1\<rparr> \<and>
     map_option c_id (mi_iterator (fst (snd (mi_next
       (fst (run [Next, Next] (makeStorageIterator two_registry acme) (init_sys two_store)))
       (snd (run [Next, Next] (makeStorageIterator two_registry acme) (init_sys two_store))))))) =
       Some 1 \<and>
     (\<exists>w' w''.
        it_next (stub_cursor 1)
          (world (snd (run [Next, Next] (makeStorageIterator two_registry acme)
            (init_sys two_store)))) = (Inr [], w') \<and>
        it_close (stub_cursor 1) w' = (Inr (), w''))) \<and>
   ((\<forall>i. \<not> bk_faulty (world (init_sys (paged 1 two_store)) i)) \<and>
     sum_list (map (\<lambda>ki. length (bk_blobs (world (init_sys (paged 1 two_store)) (snd ki))))
       [(''P2'', 0), (''P1'', 1)]) < 5 \<and>
     fst (drain 5 (makeStorageIterator two_registry acme) (init_sys (paged 1 two_store))) =
       [\<lparr>lbr_id = ''a'', lbr_etag = ''old a'', lbr_size = 5, lbr_provider = Some ''P1''\<rparr>,
        \<lparr>lbr_id = ''b'', lbr_etag = ''old b'', lbr_size = 5, lbr_provider = Some ''P1''\<rparr>,
        \<lparr>lbr_id = ''b'', lbr_etag = ''new b'', lbr_size = 5, lbr_provider = Some ''P2''\<rparr>,
        \<lparr>lbr_id = ''c'', lbr_etag = ''new c'', lbr_size = 5, lbr_provider = Some ''P2''\<rparr>] \<and>
     a_listStream (stub 1) acme (paged 1 two_store) =
       (Inr (stub_cursor 1),
        (paged 1 two_store)(1 := (paged 1 two_store 1)\<lparr>bk_pending := [[\<lparr>lbr_id = ''a'', lbr_etag = ''old a'', lbr_size = 5, lbr_provider = None\<rparr>,
           \<lparr>lbr_id = ''b'', lbr_etag = ''old b'', lbr_size = 5, lbr_provider = None\<rparr>]]\<rparr>)) \<and>
     it_next (stub_cursor 1)
        ((paged 1 two_store)(1 := (paged 1 two_store 1)\<lparr>bk_pending := [[\<lparr>lbr_id = ''a'', lbr_etag = ''old a'', lbr_size = 5, lbr_provider = None\<rparr>,
           \<lparr>lbr_id = ''b'', lbr_etag = ''old b'', lbr_size = 5, lbr_provider = None\<rparr>]]\<rparr>)) =
       (Inr [\<lparr>lbr_id = ''a'', lbr_etag = ''old a'', lbr_size = 5, lbr_provider = None\<rparr>,
             \<lparr>lbr_id = ''b'', lbr_etag = ''old b'', lbr_size = 5, lbr_provider = None\<rparr>],
        (paged 1 two_store)(1 := (paged 1 two_store 1)\<lparr>bk_pending := []\<rparr>)) \<and>
     fst (mi_next (makeStorageIterator two_registry acme) (init_sys (paged 1 two_store))) =
       Inr [\<lparr>lbr_id = ''a'', lbr_etag = ''old a'', lbr_size = 5, lbr_provider = Some ''P1''\<rparr>,
            \<lparr>lbr_id = ''b'', lbr_etag = ''old b'', lbr_size = 5, lbr_provider = Some ''P1''\<rparr>] \<and>
     trace (snd (snd (mi_next (makeStorageIterator two_registry acme) (init_sys (paged 1 two_store))))) =
       [(''P1'', ListStream acme), (''P1'', IterNext 0)]) \<and>
   (a_listStream (stub 1) acme (broken 1 two_store) = (Inl unavailable, broken 1 two_store) \<and>
     mi_next (makeStorageIterator two_registry acme) (init_sys (broken 1 two_store)) =
       (Inl unavailable,
        (makeStorageIterator two_registry acme)\<lparr>mi_adapters := [(''P2'', stub 0)],
           mi_provider := Some (''P1'', stub 1)\<rparr>,
        (init_sys (broken 1 two_store))\<lparr>trace := [(''P1'', ListStream acme)]\<rparr>))"
proof -
  have r: "two_registry = stubs [(''P2'', 0), (''P1'', 1)]"
    by (simp add: two_registry_def stubs_def)
  have p1: "(\<forall>i. \<not> bk_faulty (world (init_sys two_store) i)) \<and>
     sum_list (map (\<lambda>ki. length (bk_blobs (world (init_sys two_store) (snd ki))))
       [(''P2'', 0), (''P1'', 1)]) < 5 \<and>
     fst (drain 5 (makeStorageIterator two_registry acme) (init_sys two_store)) =
       [\<lparr>lbr_id = ''a'', lbr_etag = ''old a'', lbr_size = 5, lbr_provider = Some ''P1''\<rparr>,
        \<lparr>lbr_id = ''b'', lbr_etag = ''old b'', lbr_size = 5, lbr_provider = Some ''P1''\<rparr>,
        \<lparr>lbr_id = ''b'', lbr_etag = ''new b'', lbr_size = 5, lbr_provider = Some ''P2''\<rparr>,
        \<lparr>lbr_id = ''c'', lbr_etag = ''new c'', lbr_size = 5, lbr_provider = Some ''P2''\<rparr>] \<and>
     (\<exists>pre t. rev two_registry =
          pre @ mi_adapters (fst (run [Next, Next, Next] (makeStorageIterator two_registry acme)
            (init_sys two_store))) \<and>
        trace (snd (run [Next, Next, Next] (makeStorageIterator two_registry acme)
            (init_sys two_store))) = t \<and>
        opens t = map (\<lambda>p. (fst p, ListStream acme)) pre) \<and>
     opens (trace (snd (run [Next, Next, Next] (makeStorageIterator two_registry acme)
            (init_sys two_store)))) = [(''P1'', ListStream acme), (''P2'', ListStream acme)]"
  proof -
    have f: "\<forall>i. \<not> bk_faulty (world (init_sys two_store) i)"
      by (simp add: stub_simps)
    have g: "sum_list (map (\<lambda>ki. length (bk_blobs (world (init_sys two_store) (snd ki))))
       [(''P2'', 0), (''P1'', 1)]) < 5"
      by (simp add: stub_simps)
    from merged_listing_order[where ?s4.0 = "init_sys two_store" and kis = "[(''P2'', 0), (''P1'', 1)]"
        and n = 5 and ws = acme, THEN conjunct2, THEN conjunct2, THEN conjunct2, THEN conjunct2, THEN conjunct2, THEN conjunct2, THEN conjunct2, THEN conjunct2, THEN conjunct2, THEN conjunct2, THEN conjunct2,
        THEN mp, OF conjI[OF f g]]
    have d: "fst (drain 5 (makeStorageIterator two_registry acme) (init_sys two_store)) =
       [\<lparr>lbr_id = ''a'', lbr_etag = ''old a'', lbr_size = 5, lbr_provider = Some ''P1''\<rparr>,
        \<lparr>lbr_id = ''b'', lbr_etag = ''old b'', lbr_size = 5, lbr_provider = Some ''P1''\<rparr>,
        \<lparr>lbr_id = ''b'', lbr_etag = ''new b'', lbr_size = 5, lbr_provider = Some ''P2''\<rparr>,
        \<lparr>lbr_id = ''c'', lbr_etag = ''new c'', lbr_size = 5, lbr_provider = Some ''P2''\<rparr>]"
      unfolding r by (simp add: listing_def stub_simps)
    let ?X = "run [Next, Next, Next] (makeStorageIterator two_registry acme) (init_sys two_store)"
    have x: "run [Next, Next, Next] (makeStorageIterator two_registry acme) (init_sys two_store) =
        (fst ?X, snd ?X)" by simp
    from merged_listing_order[where ps = "[Next, Next, Next]" and ads = two_registry and ws = acme
        and s = "init_sys two_store", THEN conjunct2, THEN conjunct2, THEN conjunct2, THEN conjunct2, THEN conjunct2, THEN conjunct2, THEN conjunct2, THEN conjunct2, THEN conjunct1, THEN mp, OF x]
    have o: "\<exists>pre t. rev two_registry = pre @ mi_adapters (fst ?X) \<and> trace (snd ?X) = t \<and>
        opens t = map (\<lambda>p. (fst p, ListStream acme)) pre"
      by (auto simp: init_sys_def)
    have e: "opens (trace (snd ?X)) = [(''P1'', ListStream acme), (''P2'', ListStream acme)]"
      by code_simp
    from f g d o e show ?thesis by blast
  qed
  have p2: "fst (mi_next (makeStorageIterator two_registry acme) (init_sys two_store)) =
       Inr [\<lparr>lbr_id = ''a'', lbr_etag = ''old a'', lbr_size = 5, lbr_provider = Some ''P1''\<rparr>] \<and>
     map_option fst (mi_provider (fst (snd (mi_next (makeStorageIterator two_registry acme)
       (init_sys two_store))))) = Some ''P1''"
  proof -
    let ?Z = "mi_next (makeStorageIterator two_registry acme) (init_sys two_store)"
    have c: "fst ?Z =
       Inr [\<lparr>lbr_id = ''a'', lbr_etag = ''old a'', lbr_size = 5, lbr_provider = Some ''P1''\<rparr>]"
      by code_simp
    then have z: "mi_next (makeStorageIterator two_registry acme) (init_sys two_store) =
        (Inr [\<lparr>lbr_id = ''a'', lbr_etag = ''old a'', lbr_size = 5, lbr_provider = Some ''P1''\<rparr>],
         fst (snd ?Z), snd (snd ?Z))"
      by (metis prod.collapse)
    from merged_listing_order[THEN conjunct2, THEN conjunct2, THEN conjunct2, THEN conjunct2, THEN conjunct2, THEN conjunct2, THEN conjunct2, THEN conjunct2, THEN conjunct2, THEN conjunct1, THEN mp, OF z]
    have "map_option fst (mi_provider (fst (snd ?Z))) = Some ''P1''" by simp
    with c show ?thesis by blast
  qed
  have p3: "mi_iterator (fst (run [Next, Next] (makeStorageIterator two_registry acme)
        (init_sys two_store))) = Some \<lparr>c_id = 0, c_owner = ''P1'', c_it = stub_cursor 1\<rparr> \<and>
     map_option c_id (mi_iterator (fst (snd (mi_next
       (fst (run [Next, Next] (makeStorageIterator two_registry acme) (init_sys two_store)))
       (snd (run [Next, Next] (makeStorageIterator two_registry acme) (init_sys two_store))))))) =
       Some 1 \<and>
     (\<exists>w' w''.
        it_next (stub_cursor 1)
          (world (snd (run [Next, Next] (makeStorageIterator two_registry acme)
            (init_sys two_store)))) = (Inr [], w') \<and>
        it_close (stub_cursor 1) w' = (Inr (), w''))"
  proof -
    let ?X = "run [Next, Next] (makeStorageIterator two_registry acme) (init_sys two_store)"
    let ?Z = "mi_next (fst ?X) (snd ?X)"
    let ?c = "\<lparr>c_id = 0, c_owner = ''P1'', c_it = stub_cursor 1\<rparr>"
    have a: "mi_iterator (fst ?X) = Some ?c"
      by (simp add: two_registry_def makeStorageIterator_def mi_next_def open_stream_def
        cursor_next_def cursor_close_def invoke_def guarded_def init_sys_def two_store_def
        holding_def blob_def entry_def stub_listStream stub_cursor_fields)
    have b: "map_option c_id (mi_iterator (fst (snd ?Z))) = Some 1" by code_simp
    then have ne: "mi_iterator (fst (snd ?Z)) \<noteq> Some ?c" by auto
    have z: "mi_next (fst ?X) (snd ?X) = (fst ?Z, fst (snd ?Z), snd (snd ?Z))" by simp
    from merged_listing_order[THEN conjunct2, THEN conjunct2, THEN conjunct2, THEN conjunct2, THEN conjunct2, THEN conjunct2, THEN conjunct2, THEN conjunct2, THEN conjunct2, THEN conjunct2, THEN conjunct1,
        THEN mp, OF conjI[OF a conjI[OF z ne]]]
    have "\<exists>w' w''. it_next (stub_cursor 1) (world (snd ?X)) = (Inr [], w') \<and>
        it_close (stub_cursor 1) w' = (Inr (), w'')" by simp
    with a b show ?thesis by blast
  qed
  have p4: "(\<forall>i. \<not> bk_faulty (world (init_sys (paged 1 two_store)) i)) \<and>
     sum_list (map (\<lambda>ki. length (bk_blobs (world (init_sys (paged 1 two_store)) (snd ki))))
       [(''P2'', 0), (''P1'', 1)]) < 5 \<and>
     fst (drain 5 (makeStorageIterator two_registry acme) (init_sys (paged 1 two_store))) =
       [\<lparr>lbr_id = ''a'', lbr_etag = ''old a'', lbr_size = 5, lbr_provider = Some ''P1''\<rparr>,
        \<lparr>lbr_id = ''b'', lbr_etag = ''old b'', lbr_size = 5, lbr_provider = Some ''P1''\<rparr>,
        \<lparr>lbr_id = ''b'', lbr_etag = ''new b'', lbr_size = 5, lbr_provider = Some ''P2''\<rparr>,
        \<lparr>lbr_id = ''c'', lbr_etag = ''new c'', lbr_size = 5, lbr_provider = Some ''P2''\<rparr>] \<and>
     a_listStream (stub 1) acme (paged 1 two_store) =
       (Inr (stub_cursor 1),
        (paged 1 two_store)(1 := (paged 1 two_store 1)\<lparr>bk_pending := [[\<lparr>lbr_id = ''a'', lbr_etag = ''old a'', lbr_size = 5, lbr_provider = None\<rparr>,
           \<lparr>lbr_id = ''b'', lbr_etag = ''old b'', lbr_size = 5, lbr_provider = None\<rparr>]]\<rparr>)) \<and>
     it_next (stub_cursor 1)
        ((paged 1 two_store)(1 := (paged 1 two_store 1)\<lparr>bk_pending := [[\<lparr>lbr_id = ''a'', lbr_etag = ''old a'', lbr_size = 5, lbr_provider = None\<rparr>,
           \<lparr>lbr_id = ''b'', lbr_etag = ''old b'', lbr_size = 5, lbr_provider = None\<rparr>]]\<rparr>)) =
       (Inr [\<lparr>lbr_id = ''a'', lbr_etag = ''old a'', lbr_size = 5, lbr_provider = None\<rparr>,
             \<lparr>lbr_id = ''b'', lbr_etag = ''old b'', lbr_size = 5, lbr_provider = None\<rparr>],
        (paged 1 two_store)(1 := (paged 1 two_store 1)\<lparr>bk_pending := []\<rparr>)) \<and>
     fst (mi_next (makeStorageIterator two_registry acme) (init_sys (paged 1 two_store))) =
       Inr [\<lparr>lbr_id = ''a'', lbr_etag = ''old a'', lbr_size = 5, lbr_provider = Some ''P1''\<rparr>,
            \<lparr>lbr_id = ''b'', lbr_etag = ''old b'', lbr_size = 5, lbr_provider = Some ''P1''\<rparr>] \<and>
     trace (snd (snd (mi_next (makeStorageIterator two_registry acme) (init_sys (paged 1 two_store))))) =
       [(''P1'', ListStream acme), (''P1'', IterNext 0)]"
  proof -
    let ?s0 = "init_sys (paged 1 two_store)"
    let ?m0 = "makeStorageIterator two_registry acme"
    let ?w1 = "(paged 1 two_store)(1 := (paged 1 two_store 1)\<lparr>bk_pending := [[\<lparr>lbr_id = ''a'', lbr_etag = ''old a'', lbr_size = 5, lbr_provider = None\<rparr>,
           \<lparr>lbr_id = ''b'', lbr_etag = ''old b'', lbr_size = 5, lbr_provider = None\<rparr>]]\<rparr>)"
    let ?w2 = "(paged 1 two_store)(1 := (paged 1 two_store 1)\<lparr>bk_pending := []\<rparr>)"
    let ?page = "[\<lparr>lbr_id = ''a'', lbr_etag = ''old a'', lbr_size = 5, lbr_provider = None\<rparr>,
        \<lparr>lbr_id = ''b'', lbr_etag = ''old b'', lbr_size = 5, lbr_provider = None\<rparr>]"
    let ?c = "\<lparr>c_id = fresh ?s0, c_owner = fst (''P1'', stub 1), c_it = stub_cursor 1\<rparr>"
    let ?m1 = "?m0\<lparr>mi_adapters := [(''P2'', stub 0)], mi_provider := Some (''P1'', stub 1),
        mi_iterator := Some ?c\<rparr>"
    let ?s1 = "?s0\<lparr>trace := trace ?s0 @ [(fst (''P1'', stub 1), ListStream (mi_workspaceId ?m0))],
        world := ?w1, live := live ?s0 @ [fresh ?s0],
        peak := max (peak ?s0) (Suc (length (live ?s0))), fresh := Suc (fresh ?s0)\<rparr>"
    have f: "\<forall>i. \<not> bk_faulty (world ?s0 i)"
      by (simp add: stub_simps paged_def)
    have g: "sum_list (map (\<lambda>ki. length (bk_blobs (world ?s0 (snd ki))))
       [(''P2'', 0), (''P1'', 1)]) < 5"
      by (simp add: stub_simps paged_def)
    from merged_listing_order[where ?s4.0 = ?s0 and kis = "[(''P2'', 0), (''P1'', 1)]"
        and n = 5 and ws = acme, THEN conjunct2, THEN conjunct2, THEN conjunct2, THEN conjunct2, THEN conjunct2, THEN conjunct2, THEN conjunct2, THEN conjunct2, THEN conjunct2, THEN conjunct2, THEN conjunct2,
        THEN mp, OF conjI[OF f g]]
    have d: "fst (drain 5 ?m0 ?s0) =
       [\<lparr>lbr_id = ''a'', lbr_etag = ''old a'', lbr_size = 5, lbr_provider = Some ''P1''\<rparr>,
        \<lparr>lbr_id = ''b'', lbr_etag = ''old b'', lbr_size = 5, lbr_provider = Some ''P1''\<rparr>,
        \<lparr>lbr_id = ''b'', lbr_etag = ''new b'', lbr_size = 5, lbr_provider = Some ''P2''\<rparr>,
        \<lparr>lbr_id = ''c'', lbr_etag = ''new c'', lbr_size = 5, lbr_provider = Some ''P2''\<rparr>]"
      unfolding r by (simp add: listing_def stub_simps paged_def)
    have l: "a_listStream (stub 1) acme (paged 1 two_store) = (Inr (stub_cursor 1), ?w1)"
      by (simp add: stub_listStream guarded_def paged_def two_store_def holding_def blob_def
        entry_def)
    have n: "it_next (stub_cursor 1) ?w1 = (Inr ?page, ?w2)"
      by (simp add: stub_cursor_fields guarded_def paged_def two_store_def holding_def)
    have h1: "mi_iterator ?m0 = None \<and> mi_adapters ?m0 = (''P1'', stub 1) # [(''P2'', stub 0)] \<and>
        a_listStream (snd (''P1'', stub 1)) (mi_workspaceId ?m0) (world ?s0) =
          (Inr (stub_cursor 1), ?w1)"
      using l by (simp add: makeStorageIterator_def two_registry_def init_sys_def)
    have h2: "mi_iterator ?m1 = Some ?c \<and> it_next (c_it ?c) (world ?s1) = (Inr ?page, ?w2) \<and>
        ?page \<noteq> []"
      using n by simp
    note e1 = merged_listing_order[where ?m5.0 = ?m0 and ?s5.0 = ?s0, THEN conjunct2, THEN conjunct2, THEN conjunct1,
        THEN mp, OF h1]
    note e2 = merged_listing_order[where ?m5.0 = ?m1 and ?s5.0 = ?s1, THEN conjunct2, THEN conjunct2, THEN conjunct2, THEN conjunct2, THEN conjunct1,
        THEN mp, OF h2]
    have q: "mi_next ?m0 ?s0 =
        (Inr (map (\<lambda>d. d\<lparr>lbr_provider := map_option fst (mi_provider ?m1)\<rparr>) ?page), ?m1,
         ?s1\<lparr>trace := trace ?s1 @ [(c_owner ?c, IterNext (c_id ?c))], world := ?w2\<rparr>)"
      using e1 e2 by (rule trans)
    have q1: "fst (mi_next ?m0 ?s0) =
       Inr [\<lparr>lbr_id = ''a'', lbr_etag = ''old a'', lbr_size = 5, lbr_provider = Some ''P1''\<rparr>,
            \<lparr>lbr_id = ''b'', lbr_etag = ''old b'', lbr_size = 5, lbr_provider = Some ''P1''\<rparr>]"
      unfolding q by simp
    have q2: "trace (snd (snd (mi_next ?m0 ?s0))) =
       [(''P1'', ListStream acme), (''P1'', IterNext 0)]"
      unfolding q by (simp add: init_sys_def makeStorageIterator_def)
    from f g d l n q1 q2 show ?thesis by blast
  qed
  have p5: "a_listStream (stub 1) acme (broken 1 two_store) = (Inl unavailable, broken 1 two_store) \<and>
     mi_next (makeStorageIterator two_registry acme) (init_sys (broken 1 two_store)) =
       (Inl unavailable,
        (makeStorageIterator two_registry acme)\<lparr>mi_adapters := [(''P2'', stub 0)],
           mi_provider := Some (''P1'', stub 1)\<rparr>,
        (init_sys (broken 1 two_store))\<lparr>trace := [(''P1'', ListStream acme)]\<rparr>)"
  proof -
    let ?s0 = "init_sys (broken 1 two_store)"
    let ?m0 = "makeStorageIterator two_registry acme"
    have l: "a_listStream (stub 1) acme (broken 1 two_store) =
        (Inl unavailable, broken 1 two_store)"
      by (simp add: stub_listStream guarded_def broken_def)
    have h: "mi_iterator ?m0 = None \<and> mi_adapters ?m0 = (''P1'', stub 1) # [(''P2'', stub 0)] \<and>
        a_listStream (snd (''P1'', stub 1)) (mi_workspaceId ?m0) (world ?s0) =
          (Inl unavailable, broken 1 two_store)"
      using l by (simp add: makeStorageIterator_def two_registry_def init_sys_def)
    from merged_listing_order[where ?m5.0 = ?m0 and ?s5.0 = ?s0, THEN conjunct2, THEN conjunct2, THEN conjunct2, THEN conjunct1,
        THEN mp, OF h]
    have "mi_next ?m0 ?s0 =
       (Inl unavailable,
        ?m0\<lparr>mi_adapters := [(''P2'', stub 0)], mi_provider := Some (''P1'', stub 1)\<rparr>,
        ?s0\<lparr>trace := [(''P1'', ListStream acme)]\<rparr>)"
      by (simp add: init_sys_def makeStorageIterator_def)
    with l show ?thesis by blast
  qed
  show ?thesis
    by (rule conjI[OF p1 conjI[OF p2 conjI[OF p3 conjI[OF p4 p5]]]])
qed

text \<open>
  C9. Starting with no backend cursor open, after any sequence of \<^verbatim>\<open>next\<close> and \<^verbatim>\<open>close\<close>
  calls on a new iterator at most one backend cursor is open, never were two open at
  once, and an open cursor is the one the iterator holds. \<^verbatim>\<open>close\<close> on an iterator that
  holds a cursor makes one backend call, the \<^verbatim>\<open>close\<close> of that cursor, after which, if it
  returned, the cursor is not open. After a \<^verbatim>\<open>next\<close> that returned the empty page the
  iterator holds no cursor, and \<^verbatim>\<open>close\<close> returns without calling a backend and leaves
  the state as it is.
\<close>

theorem one_cursor_open:
  "(live s = [] \<and> peak s \<le> 1 \<and> run ps (makeStorageIterator ads ws) s = (m, s') \<longrightarrow>
      peak s' \<le> 1 \<and> length (live s') \<le> 1 \<and>
      (case mi_iterator m of None \<Rightarrow> live s' = []
       | Some c \<Rightarrow> live s' = [] \<or> live s' = [c_id c])) \<and>
   (mi_iterator m1 = Some c \<and> mi_close m1 s1 = (r, m2, s2) \<longrightarrow>
      m2 = m1 \<and> trace s2 = trace s1 @ [(c_owner c, IterClose (c_id c))] \<and>
      (\<exists>w'. it_close (c_it c) (world s1) = (r, w')) \<and>
      (r = Inr () \<longrightarrow> c_id c \<notin> set (live s2))) \<and>
   (mi_next m3 s3 = (Inr [], m4, s4) \<longrightarrow>
      mi_iterator m4 = None \<and> mi_adapters m4 = [] \<and> mi_close m4 s4 = (Inr (), m4, s4))"
proof (intro conjI impI)
  assume a: "live s = [] \<and> peak s \<le> 1 \<and> run ps (makeStorageIterator ads ws) s = (m, s')"
  then have "one_open (mi_iterator (makeStorageIterator ads ws)) s"
    by (simp add: one_open_def makeStorageIterator_def)
  with a have o: "one_open (mi_iterator m) s'" using run_one_open by blast
  from o show "peak s' \<le> 1" by (simp add: one_open_def)
  from o show "length (live s') \<le> 1" by (auto simp: one_open_def split: option.splits)
  from o show "case mi_iterator m of None \<Rightarrow> live s' = []
       | Some c \<Rightarrow> live s' = [] \<or> live s' = [c_id c]" by (simp add: one_open_def)
next
  assume a: "mi_iterator m1 = Some c \<and> mi_close m1 s1 = (r, m2, s2)"
  then have a1: "mi_iterator m1 = Some c" and a2: "mi_close m1 s1 = (r, m2, s2)" by blast+
  obtain r' s'' where c: "cursor_close c s1 = (r', s'')" by (cases "cursor_close c s1")
  with a2 have e: "r = r'" "m2 = m1" "s2 = s''" by (simp_all add: mi_close_def a1)
  note ce = cursor_close_eq[OF c]
  from e show "m2 = m1" by simp
  from ce e show "trace s2 = trace s1 @ [(c_owner c, IterClose (c_id c))]" by simp
  from ce e show "\<exists>w'. it_close (c_it c) (world s1) = (r, w')" by simp
  assume "r = Inr ()"
  with e have "r' = Inr ()" by simp
  with ce have "live s'' = removeAll (c_id c) (live s1)" by simp
  with e show "c_id c \<notin> set (live s2)" by simp
next
  assume a: "mi_next m3 s3 = (Inr [], m4, s4)"
  from next_loop_empty_page[OF a[unfolded mi_next_def]]
  show "mi_iterator m4 = None" "mi_adapters m4 = []" by simp_all
  then show "mi_close m4 s4 = (Inr (), m4, s4)" by (simp add: mi_close_def)
qed

text \<open>
  Three pulls and a close on the two backends: \<open>P1\<close> is closed before \<open>P2\<close> is opened, and
  the close makes one call, the \<^verbatim>\<open>close\<close> of the cursor of \<open>P2\<close>. After the fifth pull
  returned the empty page, \<^verbatim>\<open>close\<close> returns.
\<close>

theorem one_cursor_open_witness:
  "(live (init_sys two_store) = [] \<and> peak (init_sys two_store) \<le> 1 \<and>
    peak (snd (run [Next, Next, Next, CloseIterator] (makeStorageIterator two_registry acme)
       (init_sys two_store))) = 1 \<and>
    live (snd (run [Next, Next, Next, CloseIterator] (makeStorageIterator two_registry acme)
       (init_sys two_store))) = [] \<and>
    trace (snd (run [Next, Next, Next, CloseIterator] (makeStorageIterator two_registry acme)
       (init_sys two_store))) =
      [(''P1'', ListStream acme), (''P1'', IterNext 0), (''P1'', IterNext 0), (''P1'', IterNext 0),
       (''P1'', IterClose 0), (''P2'', ListStream acme), (''P2'', IterNext 1),
       (''P2'', IterClose 1)] \<and>
    length (live (snd (run [Next, Next, Next] (makeStorageIterator two_registry acme)
       (init_sys two_store)))) \<le> 1 \<and>
    fst (mi_next (fst (run [Next, Next, Next, Next] (makeStorageIterator two_registry acme)
          (init_sys two_store)))
        (snd (run [Next, Next, Next, Next] (makeStorageIterator two_registry acme)
          (init_sys two_store)))) = Inr [] \<and>
    fst (mi_close
      (fst (snd (mi_next (fst (run [Next, Next, Next, Next] (makeStorageIterator two_registry acme)
          (init_sys two_store)))
        (snd (run [Next, Next, Next, Next] (makeStorageIterator two_registry acme)
          (init_sys two_store))))))
      (snd (snd (mi_next (fst (run [Next, Next, Next, Next] (makeStorageIterator two_registry acme)
          (init_sys two_store)))
        (snd (run [Next, Next, Next, Next] (makeStorageIterator two_registry acme)
          (init_sys two_store))))))) = Inr ()) \<and>
   (map_option c_owner (mi_iterator (fst (run [Next, Next, Next]
       (makeStorageIterator two_registry acme) (init_sys two_store)))) = Some ''P2'' \<and>
    trace (snd (snd (mi_close
       (fst (run [Next, Next, Next] (makeStorageIterator two_registry acme) (init_sys two_store)))
       (snd (run [Next, Next, Next] (makeStorageIterator two_registry acme) (init_sys two_store)))))) =
    trace (snd (run [Next, Next, Next] (makeStorageIterator two_registry acme) (init_sys two_store)))
      @ [(''P2'', IterClose 1)])"
proof -
  have p1: "live (init_sys two_store) = [] \<and> peak (init_sys two_store) \<le> 1 \<and>
     peak (snd (run [Next, Next, Next, CloseIterator] (makeStorageIterator two_registry acme)
        (init_sys two_store))) = 1 \<and>
     live (snd (run [Next, Next, Next, CloseIterator] (makeStorageIterator two_registry acme)
        (init_sys two_store))) = [] \<and>
     trace (snd (run [Next, Next, Next, CloseIterator] (makeStorageIterator two_registry acme)
        (init_sys two_store))) =
       [(''P1'', ListStream acme), (''P1'', IterNext 0), (''P1'', IterNext 0), (''P1'', IterNext 0),
        (''P1'', IterClose 0), (''P2'', ListStream acme), (''P2'', IterNext 1),
        (''P2'', IterClose 1)] \<and>
     length (live (snd (run [Next, Next, Next] (makeStorageIterator two_registry acme)
        (init_sys two_store)))) \<le> 1 \<and>
     fst (mi_next (fst (run [Next, Next, Next, Next] (makeStorageIterator two_registry acme)
           (init_sys two_store)))
         (snd (run [Next, Next, Next, Next] (makeStorageIterator two_registry acme)
           (init_sys two_store)))) = Inr [] \<and>
     fst (mi_close
       (fst (snd (mi_next (fst (run [Next, Next, Next, Next] (makeStorageIterator two_registry acme)
           (init_sys two_store)))
         (snd (run [Next, Next, Next, Next] (makeStorageIterator two_registry acme)
           (init_sys two_store))))))
       (snd (snd (mi_next (fst (run [Next, Next, Next, Next] (makeStorageIterator two_registry acme)
           (init_sys two_store)))
         (snd (run [Next, Next, Next, Next] (makeStorageIterator two_registry acme)
           (init_sys two_store))))))) = Inr ()"
  proof -
    let ?m0 = "makeStorageIterator two_registry acme"
    let ?s0 = "init_sys two_store"
    have i: "live ?s0 = [] \<and> peak ?s0 \<le> 1" by (simp add: init_sys_def)
    have a: "peak (snd (run [Next, Next, Next, CloseIterator] ?m0 ?s0)) = 1 \<and>
        live (snd (run [Next, Next, Next, CloseIterator] ?m0 ?s0)) = [] \<and>
        trace (snd (run [Next, Next, Next, CloseIterator] ?m0 ?s0)) =
       [(''P1'', ListStream acme), (''P1'', IterNext 0), (''P1'', IterNext 0), (''P1'', IterNext 0),
        (''P1'', IterClose 0), (''P2'', ListStream acme), (''P2'', IterNext 1),
        (''P2'', IterClose 1)]"
      by code_simp
    let ?X = "run [Next, Next, Next] ?m0 ?s0"
    have x: "live ?s0 = [] \<and> peak ?s0 \<le> 1 \<and> run [Next, Next, Next] ?m0 ?s0 = (fst ?X, snd ?X)"
      using i by simp
    from one_cursor_open[where s = ?s0 and ps = "[Next, Next, Next]" and ads = two_registry
        and ws = acme, THEN conjunct1, THEN mp, OF x]
    have b: "length (live (snd ?X)) \<le> 1" by blast
    let ?Y = "run [Next, Next, Next, Next] ?m0 ?s0"
    let ?Z = "mi_next (fst ?Y) (snd ?Y)"
    have c: "fst ?Z = Inr []" by code_simp
    then have z: "mi_next (fst ?Y) (snd ?Y) = (Inr [], fst (snd ?Z), snd (snd ?Z))"
      by (metis prod.collapse)
    from one_cursor_open[THEN conjunct2, THEN conjunct2, THEN mp, OF z]
    have d: "fst (mi_close (fst (snd ?Z)) (snd (snd ?Z))) = Inr ()" by simp
    from i a b c d show ?thesis by blast
  qed
  have p2: "map_option c_owner (mi_iterator (fst (run [Next, Next, Next]
        (makeStorageIterator two_registry acme) (init_sys two_store)))) = Some ''P2'' \<and>
     trace (snd (snd (mi_close
        (fst (run [Next, Next, Next] (makeStorageIterator two_registry acme) (init_sys two_store)))
        (snd (run [Next, Next, Next] (makeStorageIterator two_registry acme) (init_sys two_store)))))) =
     trace (snd (run [Next, Next, Next] (makeStorageIterator two_registry acme) (init_sys two_store)))
       @ [(''P2'', IterClose 1)]"
  proof -
    let ?X = "run [Next, Next, Next] (makeStorageIterator two_registry acme) (init_sys two_store)"
    let ?Z = "mi_close (fst ?X) (snd ?X)"
    have a: "map_option c_owner (mi_iterator (fst ?X)) = Some ''P2''" by code_simp
    have b: "map_option c_id (mi_iterator (fst ?X)) = Some 1" by code_simp
    from a b obtain c where c: "mi_iterator (fst ?X) = Some c" "c_owner c = ''P2''" "c_id c = 1"
      by auto
    have z: "mi_close (fst ?X) (snd ?X) = (fst ?Z, fst (snd ?Z), snd (snd ?Z))" by simp
    from one_cursor_open[THEN conjunct2, THEN conjunct1, THEN mp, OF conjI[OF c(1) z]] c(2,3)
    have "trace (snd (snd ?Z)) = trace (snd ?X) @ [(''P2'', IterClose 1)]" by simp
    with a show ?thesis by blast
  qed
  show ?thesis
    by (rule conjI[OF p1 p2])
qed

end
